theory Spec2Isabelle
  imports Complex_Main "HOL-Library.List_Lexorder"
begin

section \<open>Text\<close>

text \<open>
  A Python \<open>str\<close> is a sequence of Unicode code points; it is modelled as the list of
  those code points. A literal of the source is written \<open>str ''...''\<close>; the glyphs of
  the matrix export, which are not ASCII, are written by their code points.
\<close>

type_synonym ustr = "nat list"

abbreviation str :: "string \<Rightarrow> ustr" where
  "str s \<equiv> map of_char s"

text \<open>The code points for which \<open>str.isspace\<close> holds; \<open>str.strip()\<close> removes them at both ends.\<close>

definition is_space :: "nat \<Rightarrow> bool" where
  "is_space c \<longleftrightarrow>
     (9 \<le> c \<and> c \<le> 13) \<or> (28 \<le> c \<and> c \<le> 32) \<or> c = 133 \<or> c = 160 \<or> c = 5760 \<or>
     (8192 \<le> c \<and> c \<le> 8202) \<or> c = 8232 \<or> c = 8233 \<or> c = 8239 \<or> c = 8287 \<or> c = 12288"

definition strip :: "ustr \<Rightarrow> ustr" where
  "strip s = rev (dropWhile is_space (rev (dropWhile is_space s)))"

text \<open>
  The texts the database can take. The SQLite driver hands a text over in UTF-8, which
  has no encoding for a surrogate code point (U+D800 to U+DFFF); a Python string may
  hold one (a JSON string can name one by its escape), and binding such a string to a
  statement raises \<open>UnicodeEncodeError\<close>.
\<close>

definition encodable :: "ustr \<Rightarrow> bool" where
  "encodable t = list_all (\<lambda>c. c < 0xD800 \<or> (0xDFFF < c \<and> c < 0x110000)) t"

section \<open>Models\<close>

text \<open>
  \<open>datetime.utcnow()\<close> values. The tables order them chronologically, which is the
  lexicographic order of the components.
\<close>

record datetime =
  year :: nat
  month :: nat
  day :: nat
  hour :: nat
  minute :: nat
  second :: nat
  microsecond :: nat

definition dt_key :: "datetime \<Rightarrow> nat list" where
  "dt_key d = [year d, month d, day d, hour d, minute d, second d, microsecond d]"

text \<open>
  The three tables. Isabelle record fields share one name space, so the primary keys
  \<open>Listing.id\<close>, \<open>Field.id\<close> and \<open>Observation.id\<close> are \<open>lid\<close>, \<open>fid\<close> and \<open>oid\<close>,
  and the two \<open>created_at\<close> columns are \<open>l_created_at\<close> and \<open>f_created_at\<close>.
\<close>

record listing =
  lid :: nat
  batch :: ustr
  listing_id_text :: ustr
  l_created_at :: datetime

record field =
  fid :: nat
  canonical :: ustr
  f_created_at :: datetime

record observation =
  oid :: nat
  listing_id :: nat
  field_id :: nat
  filled :: bool
  raw_text :: ustr
  analyst :: ustr
  checked_at :: datetime

text \<open>
  The database: each table is the list of its rows in insertion order, which is the
  order in which an unordered query (\<open>.all()\<close>, \<open>.first()\<close>) yields them.
\<close>

record store =
  listing_table :: "listing list"
  field_table :: "field list"
  observation_table :: "observation list"

definition empty_store :: store where
  "empty_store = \<lparr>listing_table = [], field_table = [], observation_table = []\<rparr>"

text \<open>An integer primary key left out of an insert is one more than the largest key in use.\<close>

definition next_id :: "nat list \<Rightarrow> nat" where
  "next_id ids = Suc (fold max ids 0)"

definition insert_listing :: "ustr \<Rightarrow> ustr \<Rightarrow> datetime \<Rightarrow> store \<Rightarrow> listing \<times> store" where
  "insert_listing b txt now s =
     (let l = \<lparr>lid = next_id (map lid (listing_table s)), batch = b, listing_id_text = txt,
                l_created_at = now\<rparr>
      in (l, s\<lparr>listing_table := listing_table s @ [l]\<rparr>))"

definition insert_field :: "ustr \<Rightarrow> datetime \<Rightarrow> store \<Rightarrow> field \<times> store" where
  "insert_field name now s =
     (let f = \<lparr>fid = next_id (map fid (field_table s)), canonical = name, f_created_at = now\<rparr>
      in (f, s\<lparr>field_table := field_table s @ [f]\<rparr>))"

definition insert_observation ::
  "nat \<Rightarrow> nat \<Rightarrow> bool \<Rightarrow> ustr \<Rightarrow> ustr \<Rightarrow> datetime \<Rightarrow> store \<Rightarrow> store" where
  "insert_observation l f fl raw an now s =
     s\<lparr>observation_table := observation_table s @
         [\<lparr>oid = next_id (map oid (observation_table s)), listing_id = l, field_id = f,
           filled = fl, raw_text = raw, analyst = an, checked_at = now\<rparr>]\<rparr>"

text \<open>
  What ends a request early: the 404 of \<open>get_or_404\<close>, and the Python exceptions that
  no handler catches (\<open>CsvError\<close> is \<open>csv.Error\<close>).
\<close>

datatype failure =
  NotFound | ValueError | TypeError | AttributeError | CsvError | UnicodeEncodeError

text \<open>
  A session and the committed store. The observations a session has added and not yet
  committed are written by a flush, which runs before every query of the session and
  with every commit; the flush raises when a text of such an observation cannot be
  encoded, and the request then leaves the committed store.
\<close>

definition flush_ok :: "store \<Rightarrow> store \<Rightarrow> bool" where
  "flush_ok s c =
     list_all (\<lambda>ob. encodable (raw_text ob) \<and> encodable (analyst ob))
       (drop (length (observation_table c)) (observation_table s))"

section \<open>Helpers\<close>

text \<open>
  \<open>find_or_create_field\<close>: the field registry. \<open>None\<close> is the source's \<open>return None\<close>;
  the query binds the trimmed name, so it raises for a name that cannot be encoded.
\<close>

definition find_or_create_field ::
  "ustr \<Rightarrow> datetime \<Rightarrow> store \<Rightarrow> failure + field option \<times> store" where
  "find_or_create_field name0 now s =
     (let name = strip name0 in
      if name = [] then Inr (None, s)
      else if encodable name
      then case find (\<lambda>f. canonical f = name) (field_table s) of
             Some f \<Rightarrow> Inr (Some f, s)
           | None \<Rightarrow> (let (f, s') = insert_field name now s in Inr (Some f, s'))
      else Inl UnicodeEncodeError)"

section \<open>Requests and responses\<close>

text \<open>
  JSON values as \<open>request.json\<close> decodes them (numbers are integers here), and Python's
  truth value of each, which is what \<open>bool(...)\<close> returns.
\<close>

datatype json = JNull | JBool bool | JInt int | JStr ustr | JArr "json list" | JObj "(ustr \<times> json) list"

fun truthy :: "json \<Rightarrow> bool" where
  "truthy JNull = False"
| "truthy (JBool b) = b"
| "truthy (JInt i) = (i \<noteq> 0)"
| "truthy (JStr s) = (s \<noteq> [])"
| "truthy (JArr xs) = (xs \<noteq> [])"
| "truthy (JObj kvs) = (kvs \<noteq> [])"

text \<open>
  The body of \<open>POST /api/batches/<batch>/listings\<close>. A key that is absent (or null,
  for \<open>field_text\<close>) is \<open>None\<close>; the texts are strings, as the interface has them.
\<close>

record obs_entry =
  field_text :: "ustr option"
  filled_value :: "json option"

record listing_request =
  req_listing_id :: "ustr option"
  req_observations :: "obs_entry list"
  req_analyst :: "ustr option"

text \<open>A response is its status code and its JSON body.\<close>

type_synonym response = "nat \<times> json"

definition sample_time :: datetime where
  "sample_time = \<lparr>year = 2024, month = 1, day = 1, hour = 0, minute = 0, second = 0,
                   microsecond = 0\<rparr>"

section \<open>Recording a listing\<close>

text \<open>
  The loop of \<open>add_listing\<close> over the observation entries, for the listing with id
  \<open>l\<close>. It threads the session (what queries see) and the committed store. The query
  for the field flushes the observations added so far and binds the trimmed text, so it
  raises when one of these cannot be encoded; creating a field commits the session; an
  added observation stays pending.
\<close>

fun add_observations ::
  "nat \<Rightarrow> ustr \<Rightarrow> datetime \<Rightarrow> obs_entry list \<Rightarrow> store \<times> store \<Rightarrow> failure \<times> store + store \<times> store" where
  "add_observations l an now [] (s, c) = Inr (s, c)"
| "add_observations l an now (obs # rest) (s, c) =
     (let raw = strip (case field_text obs of None \<Rightarrow> [] | Some t \<Rightarrow> t) in
      if raw = [] then add_observations l an now rest (s, c)
      else if flush_ok s c \<and> encodable raw
      then
        let (fld, s1, c1) = (case find (\<lambda>f. canonical f = raw) (field_table s) of
                               Some f \<Rightarrow> (f, s, c)
                             | None \<Rightarrow> (let (f, s') = insert_field raw now s in (f, s', s')));
            ob_filled = (case filled_value obs of None \<Rightarrow> False | Some v \<Rightarrow> truthy v)
        in add_observations l an now rest
             (insert_observation l (fid fld) ob_filled raw an now s1, c1)
      else Inl (UnicodeEncodeError, c))"

text \<open>
  \<open>add_listing\<close>: the outcome (a response, or the exception that escapes) and the store
  the request leaves. The listing is committed before the loop, so an exception in the
  loop or in the last commit leaves the listing without the pending observations.
\<close>

definition add_listing ::
  "ustr \<Rightarrow> listing_request \<Rightarrow> datetime \<Rightarrow> store \<Rightarrow> (failure + response) \<times> store" where
  "add_listing b data now s =
     (let listing_text = strip (case req_listing_id data of None \<Rightarrow> [] | Some t \<Rightarrow> t);
          entries = req_observations data;
          an = (case req_analyst data of None \<Rightarrow> str ''unknown'' | Some a \<Rightarrow> a)
      in if listing_text = []
         then (Inr (400, JObj [(str ''error'', JStr (str ''listing_id required''))]), s)
         else if encodable b \<and> encodable listing_text
         then
           let (lst, s1) = insert_listing b listing_text now s
           in case add_observations (lid lst) an now entries (s1, s1) of
                Inl (e, c) \<Rightarrow> (Inl e, c)
              | Inr (s2, c2) \<Rightarrow>
                  if flush_ok s2 c2
                  then (Inr (200, JObj [(str ''status'', JStr (str ''ok'')),
                                        (str ''listing_db_id'', JInt (int (lid lst)))]), s2)
                  else (Inl UnicodeEncodeError, c2)
         else (Inl UnicodeEncodeError, s))"

section \<open>Field detail and bulk marking\<close>

text \<open>\<open>Observation.query.filter_by(listing_id=l, field_id=f).first()\<close>.\<close>

definition first_observation :: "nat \<Rightarrow> nat \<Rightarrow> store \<Rightarrow> observation option" where
  "first_observation l f s =
     find (\<lambda>ob. listing_id ob = l \<and> field_id ob = f) (observation_table s)"

record detail_row =
  row_listing_id_text :: ustr
  status :: ustr
  obs_id :: "nat option"

text \<open>
  \<open>ORDER BY created_at DESC\<close>: the newest first. SQLite sorts stably, so listings with
  equal timestamps stay in insertion order.
\<close>

definition newest_first :: "listing list \<Rightarrow> listing list" where
  "newest_first ls = rev (sort_key (\<lambda>l. dt_key (l_created_at l)) (rev ls))"

text \<open>\<open>field_detail\<close> returns the field and the rows handed to the template.\<close>

definition field_detail :: "nat \<Rightarrow> store \<Rightarrow> failure + field \<times> detail_row list" where
  "field_detail f s =
     (case find (\<lambda>x. fid x = f) (field_table s) of
        None \<Rightarrow> Inl NotFound
      | Some fld \<Rightarrow>
          Inr (fld,
               map (\<lambda>l. let obs = first_observation (lid l) f s in
                          \<lparr>row_listing_id_text = listing_id_text l,
                           status = (case obs of
                                       Some ob \<Rightarrow> if filled ob then str ''filled'' else str ''empty''
                                     | None \<Rightarrow> str ''unchecked''),
                           obs_id = map_option oid obs\<rparr>)
                   (newest_first (listing_table s))))"

text \<open>
  The loop of \<open>bulk_mark_empty\<close>: \<open>count\<close> and the session are threaded through, so a
  query sees the observations added earlier in the same loop.
\<close>

fun mark_listings :: "nat \<Rightarrow> field \<Rightarrow> ustr \<Rightarrow> datetime \<Rightarrow> listing list \<Rightarrow> nat \<times> store \<Rightarrow> nat \<times> store" where
  "mark_listings f fld an now [] (count, s) = (count, s)"
| "mark_listings f fld an now (l # ls) (count, s) =
     (case first_observation (lid l) f s of
        Some obs \<Rightarrow> mark_listings f fld an now ls (count, s)
      | None \<Rightarrow>
          mark_listings f fld an now ls
            (count + 1, insert_observation (lid l) f False (canonical fld) an now s))"

text \<open>
  \<open>bulk_mark_empty\<close>. The source answers with a redirect to the field page; the model
  returns the final value of its variable \<open>count\<close> together with the store.
\<close>

definition bulk_mark_empty :: "nat \<Rightarrow> ustr option \<Rightarrow> datetime \<Rightarrow> store \<Rightarrow> failure + nat \<times> store" where
  "bulk_mark_empty f form_analyst now s =
     (let an = (case form_analyst of None \<Rightarrow> str ''bulk_user'' | Some a \<Rightarrow> a) in
      case find (\<lambda>x. fid x = f) (field_table s) of
        None \<Rightarrow> Inl NotFound
      | Some fld \<Rightarrow> Inr (mark_listings f fld an now (listing_table s) (0, s)))"

section \<open>Batch summary\<close>

text \<open>
  The query of \<open>batch_summary\<close>: the inner join of \<open>field\<close>, \<open>observation\<close> and
  \<open>listing\<close> on the two foreign keys, restricted to the listings of the batch.
\<close>

definition summary_join :: "ustr \<Rightarrow> store \<Rightarrow> (field \<times> observation \<times> listing) list" where
  "summary_join b s =
     [(f, ob, l). f \<leftarrow> field_table s, ob \<leftarrow> observation_table s, fid f = field_id ob,
                  l \<leftarrow> listing_table s, listing_id ob = lid l, batch l = b]"

record summary_row =
  sum_field_id :: nat
  sum_canonical :: ustr
  sum_filled :: nat
  sum_empty :: nat
  sum_sample :: nat

text \<open>
  \<open>GROUP BY f.id\<close> with the three aggregates, one output row per group, then
  \<open>ORDER BY sample_count DESC\<close>. SQLite gives the \<open>GROUP BY\<close> term the direction of the
  \<open>ORDER BY\<close> term, so the groups are formed in descending order of \<open>f.id\<close>, and its
  sort is stable: of two rows with equal counts, the one with the larger field id
  comes first.
\<close>

definition summary_group :: "nat \<Rightarrow> (field \<times> observation \<times> listing) list \<Rightarrow> summary_row" where
  "summary_group k g =
     \<lparr>sum_field_id = k,
      sum_canonical = (case g of [] \<Rightarrow> [] | (f, ob, l) # rest \<Rightarrow> canonical f),
      sum_filled = length (filter (\<lambda>(f, ob, l). filled ob) g),
      sum_empty = length (filter (\<lambda>(f, ob, l). \<not> filled ob) g),
      sum_sample = length g\<rparr>"

definition batch_summary :: "ustr \<Rightarrow> store \<Rightarrow> summary_row list" where
  "batch_summary b s =
     (let joined = summary_join b s;
          keys = rev (sort (remdups (map (\<lambda>(f, ob, l). fid f) joined)));
          res = map (\<lambda>k. summary_group k (filter (\<lambda>(f, ob, l). fid f = k) joined)) keys
      in sort_key (\<lambda>r. - int (sum_sample r)) res)"

section \<open>Matrix export\<close>

text \<open>\<open>str(n)\<close> for a natural number: its decimal digits.\<close>

fun str_nat :: "nat \<Rightarrow> ustr" where
  "str_nat n = (if n < 10 then [48 + n] else str_nat (n div 10) @ [48 + n mod 10])"

declare str_nat.simps [simp del]

text \<open>The three glyphs of a matrix cell: no observation, observed filled, observed empty.\<close>

definition glyph_none :: ustr where
  "glyph_none = [0x2014]"

definition glyph_filled :: ustr where
  "glyph_filled = [0x2714, 0xFE0F]"

definition glyph_empty :: ustr where
  "glyph_empty = [0x2716, 0xFE0F]"

definition build_listing_order :: "ustr \<Rightarrow> store \<Rightarrow> listing list" where
  "build_listing_order b s =
     sort_key (\<lambda>l. dt_key (l_created_at l)) (filter (\<lambda>l. batch l = b) (listing_table s))"

text \<open>
  The dictionary \<open>{(o.field_id, o.listing_id): o for o in obs_q}\<close>: the observations
  are stored one after the other, a later one replacing an earlier one with the same key.
\<close>

definition obs_map :: "observation list \<Rightarrow> (nat \<times> nat) \<rightharpoonup> observation" where
  "obs_map obs_q = fold (\<lambda>ob m. m((field_id ob, listing_id ob) \<mapsto> ob)) obs_q Map.empty"

definition cell_symbol :: "((nat \<times> nat) \<rightharpoonup> observation) \<Rightarrow> field \<Rightarrow> listing \<Rightarrow> ustr" where
  "cell_symbol m fld l =
     (case m (fid fld, lid l) of
        None \<Rightarrow> glyph_none
      | Some ob \<Rightarrow> if filled ob then glyph_filled else glyph_empty)"

definition matrix_rows :: "field list \<Rightarrow> listing list \<Rightarrow> store \<Rightarrow> ustr list list" where
  "matrix_rows flds lsts s =
     (let m = obs_map (observation_table s)
      in map (\<lambda>fld. canonical fld # map (cell_symbol m fld) lsts) flds)"

definition listing_headers :: "listing list \<Rightarrow> ustr list" where
  "listing_headers lsts =
     map (\<lambda>(i, l). str ''L'' @ str_nat i @ str '' - '' @ listing_id_text l)
         (zip [1..<Suc (length lsts)] lsts)"

definition header_row :: "listing list \<Rightarrow> ustr list" where
  "header_row lsts =
     [str ''Field Name''] @ listing_headers lsts @
     [str ''Filled Count'', str ''Empty Count'', str ''% Empty'',
      str ''Remove? ('' @ [0x2265] @ str ''6)'']"

text \<open>\<open>col_idx_to_letter\<close>: the loop, with \<open>letters\<close> as accumulator, and the function.\<close>

function col_letters :: "nat \<Rightarrow> ustr \<Rightarrow> ustr" where
  "col_letters idx letters =
     (if idx > 0
      then col_letters ((idx - 1) div 26) ((65 + (idx - 1) mod 26) # letters)
      else letters)"
  by pat_completeness auto
termination
  by (relation "measure fst") (auto simp: div_le_dividend less_Suc_eq_le)

declare col_letters.simps [simp del]

definition col_idx_to_letter :: "nat \<Rightarrow> ustr" where
  "col_idx_to_letter idx = col_letters idx []"

text \<open>
  The formulas written by \<open>update_acell\<close>. The source writes each one as text; here it
  is the term that text denotes, and \<open>render\<close> gives the text back. A cell reference is
  its column letters and its row number.
\<close>

datatype expr =
    Num int
  | Text ustr
  | Cell ustr nat
  | Add expr expr
  | Div expr expr
  | Eq expr expr
  | Ge expr expr
  | And expr expr
  | If expr expr expr
  | CountIf ustr nat ustr nat ustr

fun render_expr :: "expr \<Rightarrow> ustr" where
  "render_expr (Num i) = (if i < 0 then str ''-'' @ str_nat (nat (- i)) else str_nat (nat i))"
| "render_expr (Text t) = str ''\"'' @ t @ str ''\"''"
| "render_expr (Cell c r) = c @ str_nat r"
| "render_expr (Add a b) = str ''('' @ render_expr a @ str ''+'' @ render_expr b @ str '')''"
| "render_expr (Div a b) = render_expr a @ str ''/'' @ render_expr b"
| "render_expr (Eq a b) = render_expr a @ str ''='' @ render_expr b"
| "render_expr (Ge a b) = render_expr a @ str ''>='' @ render_expr b"
| "render_expr (And a b) = str ''AND('' @ render_expr a @ str '','' @ render_expr b @ str '')''"
| "render_expr (If c a b) =
     str ''IF('' @ render_expr c @ str '','' @ render_expr a @ str '','' @ render_expr b @ str '')''"
| "render_expr (CountIf c1 r1 c2 r2 crit) =
     str ''COUNTIF('' @ c1 @ str_nat r1 @ str '':'' @ c2 @ str_nat r2 @ str '','' @
     str ''\"'' @ crit @ str ''\"'' @ str '')''"

definition render :: "expr \<Rightarrow> ustr" where
  "render e = str ''='' @ render_expr e"

definition filled_formula :: "ustr \<Rightarrow> ustr \<Rightarrow> nat \<Rightarrow> expr" where
  "filled_formula first_list_col_letter last_list_col_letter row_num =
     CountIf first_list_col_letter row_num last_list_col_letter row_num glyph_filled"

definition empty_formula :: "ustr \<Rightarrow> ustr \<Rightarrow> nat \<Rightarrow> expr" where
  "empty_formula first_list_col_letter last_list_col_letter row_num =
     CountIf first_list_col_letter row_num last_list_col_letter row_num glyph_empty"

definition pct_formula :: "ustr \<Rightarrow> ustr \<Rightarrow> nat \<Rightarrow> expr" where
  "pct_formula filled_col_letter empty_col_letter row_num =
     If (Eq (Add (Cell filled_col_letter row_num) (Cell empty_col_letter row_num)) (Num 0))
        (Num 0)
        (Div (Cell empty_col_letter row_num)
             (Add (Cell filled_col_letter row_num) (Cell empty_col_letter row_num)))"

definition remove_formula :: "ustr \<Rightarrow> ustr \<Rightarrow> nat \<Rightarrow> expr" where
  "remove_formula filled_col_letter empty_col_letter row_num =
     If (And (Ge (Cell empty_col_letter row_num) (Num 6))
             (Ge (Add (Cell filled_col_letter row_num) (Cell empty_col_letter row_num)) (Num 10)))
        (Text (str ''YES'')) (Text (str ''NO''))"

text \<open>
  The worksheet of the external spreadsheet: what each cell (column, row), counted from
  1, holds. \<open>ws.update\<close> stores the texts of a two-dimensional array as they are, from
  the anchor cell on; \<open>ws.update_acell\<close> enters a formula in the cell its label names.
  The service is modelled where it accepts every call; only a label that is not in A1
  notation makes \<open>update_acell\<close> fail.
\<close>

datatype cell = Raw ustr | Formula expr

type_synonym worksheet = "nat \<times> nat \<Rightarrow> cell option"

definition ws_update :: "nat \<Rightarrow> nat \<Rightarrow> ustr list list \<Rightarrow> worksheet \<Rightarrow> worksheet" where
  "ws_update col0 row0 vals ws =
     (\<lambda>(c, r). if row0 \<le> r \<and> r - row0 < length vals \<and>
                   col0 \<le> c \<and> c - col0 < length (vals ! (r - row0))
                then Some (Raw (vals ! (r - row0) ! (c - col0)))
                else ws (c, r))"

text \<open>The column that column letters denote: \<open>A\<close> is 1, \<open>Z\<close> is 26, \<open>AA\<close> is 27.\<close>

definition letters_to_col :: "ustr \<Rightarrow> nat option" where
  "letters_to_col cs =
     (if cs \<noteq> [] \<and> (\<forall>c\<in>set cs. 65 \<le> c \<and> c \<le> 90)
      then Some (fold (\<lambda>c acc. acc * 26 + (c - 64)) cs 0)
      else None)"

definition update_acell :: "ustr \<Rightarrow> nat \<Rightarrow> expr \<Rightarrow> worksheet \<Rightarrow> worksheet option" where
  "update_acell letters row_num e ws =
     (case letters_to_col letters of
        None \<Rightarrow> None
      | Some c \<Rightarrow> Some (ws((c, row_num) \<mapsto> Formula e)))"

text \<open>
  The value of a formula in a worksheet. The spreadsheet evaluates a reference to a
  formula cell by evaluating that formula; \<open>fuel\<close> bounds the depth of such references.
  A blank cell counts as 0; \<open>COUNTIF\<close> with a criterion that has no wildcard and no
  comparison operator counts the cells of the range whose value is that text. Numbers
  are exact rationals.
\<close>

datatype val = VNum rat | VText ustr | VBool bool | VError

fun eval :: "nat \<Rightarrow> worksheet \<Rightarrow> expr \<Rightarrow> val" where
  "eval fuel ws (Num i) = VNum (of_int i)"
| "eval fuel ws (Text t) = VText t"
| "eval 0 ws (Cell c r) = VError"
| "eval (Suc fuel) ws (Cell c r) =
     (case letters_to_col c of
        None \<Rightarrow> VError
      | Some k \<Rightarrow> (case ws (k, r) of
                     None \<Rightarrow> VNum 0
                   | Some (Raw t) \<Rightarrow> VText t
                   | Some (Formula e) \<Rightarrow> eval fuel ws e))"
| "eval fuel ws (Add a b) =
     (case (eval fuel ws a, eval fuel ws b) of (VNum x, VNum y) \<Rightarrow> VNum (x + y) | _ \<Rightarrow> VError)"
| "eval fuel ws (Div a b) =
     (case (eval fuel ws a, eval fuel ws b) of
        (VNum x, VNum y) \<Rightarrow> if y = 0 then VError else VNum (x / y)
      | _ \<Rightarrow> VError)"
| "eval fuel ws (Eq a b) =
     (case (eval fuel ws a, eval fuel ws b) of
        (VError, _) \<Rightarrow> VError
      | (_, VError) \<Rightarrow> VError
      | (x, y) \<Rightarrow> VBool (x = y))"
| "eval fuel ws (Ge a b) =
     (case (eval fuel ws a, eval fuel ws b) of (VNum x, VNum y) \<Rightarrow> VBool (x \<ge> y) | _ \<Rightarrow> VError)"
| "eval fuel ws (And a b) =
     (case (eval fuel ws a, eval fuel ws b) of (VBool p, VBool q) \<Rightarrow> VBool (p \<and> q) | _ \<Rightarrow> VError)"
| "eval fuel ws (If c a b) =
     (case eval fuel ws c of
        VBool p \<Rightarrow> if p then eval fuel ws a else eval fuel ws b
      | _ \<Rightarrow> VError)"
| "eval 0 ws (CountIf c1 r1 c2 r2 crit) = VError"
| "eval (Suc fuel) ws (CountIf c1 r1 c2 r2 crit) =
     (case (letters_to_col c1, letters_to_col c2) of
        (Some k1, Some k2) \<Rightarrow>
          VNum (of_nat (length (filter
            (\<lambda>p. case ws p of
                   None \<Rightarrow> False
                 | Some (Raw t) \<Rightarrow> t = crit
                 | Some (Formula e) \<Rightarrow> eval fuel ws e = VText crit)
            [(k, r). r \<leftarrow> [r1..<Suc r2], k \<leftarrow> [k1..<Suc k2]])))
      | _ \<Rightarrow> VError)"

text \<open>The column letters the formulas use, computed once before the loop.\<close>

record columns =
  first_list_col_letter :: ustr
  last_list_col_letter :: ustr
  filled_col_letter :: ustr
  empty_col_letter :: ustr
  pct_col_letter :: ustr
  remove_col_letter :: ustr

definition summary_columns :: "nat \<Rightarrow> columns" where
  "summary_columns n_listings =
     (let first_listing_col = 2;
          last_listing_col = 1 + n_listings;
          filled_col_idx = last_listing_col + 1;
          empty_col_idx = last_listing_col + 2;
          pct_col_idx = last_listing_col + 3;
          remove_col_idx = last_listing_col + 4
      in \<lparr>first_list_col_letter = col_idx_to_letter first_listing_col,
          last_list_col_letter = col_idx_to_letter last_listing_col,
          filled_col_letter = col_idx_to_letter filled_col_idx,
          empty_col_letter = col_idx_to_letter empty_col_idx,
          pct_col_letter = col_idx_to_letter pct_col_idx,
          remove_col_letter = col_idx_to_letter remove_col_idx\<rparr>)"

text \<open>
  The loop \<open>for i in range(len(rows))\<close> that writes the four formulas of each row;
  \<open>Inl row_num\<close> is its early return when a write fails at that row.
\<close>

fun write_formulas :: "columns \<Rightarrow> nat list \<Rightarrow> worksheet \<Rightarrow> nat + worksheet" where
  "write_formulas cols [] ws = Inr ws"
| "write_formulas cols (i # rest) ws =
     (let row_num = 2 + i;
          f = first_list_col_letter cols; l = last_list_col_letter cols;
          fc = filled_col_letter cols; ec = empty_col_letter cols
      in case Option.bind (Option.bind (Option.bind
                (update_acell fc row_num (filled_formula f l row_num) ws)
                (update_acell ec row_num (empty_formula f l row_num)))
                (update_acell (pct_col_letter cols) row_num (pct_formula fc ec row_num)))
                (update_acell (remove_col_letter cols) row_num (remove_formula fc ec row_num)) of
           None \<Rightarrow> Inl row_num
         | Some ws' \<Rightarrow> write_formulas cols rest ws')"

text \<open>
  \<open>export_google_sheet_symbols\<close>: the response (text and status) and, when every
  write succeeded, the tab \<open>Single Family\<close> as the call leaves it. The message of a
  caught exception is not part of the modelled response text.
\<close>

definition export_google_sheet_symbols ::
  "bool \<Rightarrow> ustr option \<Rightarrow> ustr option \<Rightarrow> store \<Rightarrow> (ustr \<times> nat) \<times> worksheet option" where
  "export_google_sheet_symbols gspread_available sheet_id_arg batch_arg s =
     (if \<not> gspread_available
      then ((str ''gspread/pandas not installed or unable to import'', 500), None)
      else
        let b = (case batch_arg of None \<Rightarrow> str ''default'' | Some x \<Rightarrow> x);
            sheet_id = (case sheet_id_arg of None \<Rightarrow> [] | Some x \<Rightarrow> x)
        in if sheet_id = [] then ((str ''missing sheet_id'', 400), None)
        else
          let lsts = build_listing_order b s
          in if lsts = []
             then ((str ''No listings found for batch '' @ [39] @ b @ [39] @ str ''.'', 400), None)
          else
            let flds = sort_key canonical (field_table s)
            in if flds = [] then ((str ''No fields found.'', 400), None)
            else
              let rows = matrix_rows flds lsts s;
                  ws1 = ws_update 1 1 [header_row lsts] (\<lambda>p. None);
                  ws2 = ws_update 1 2 rows ws1;
                  n_listings = length lsts
              in case write_formulas (summary_columns n_listings) [0..<length rows] ws2 of
                   Inl row_num \<Rightarrow>
                     ((str ''error writing formulas at row '' @ str_nat row_num @ str '': '', 500), None)
                 | Inr ws3 \<Rightarrow>
                     ((str ''Exported '' @ str_nat (length rows) @ str '' fields for '' @
                       str_nat n_listings @ str '' listings to sheet '' @ sheet_id @
                       str '' (tab '' @ [39] @ str ''Single Family'' @ [39] @ str '')'', 200),
                      Some ws3))"

section \<open>CSV text\<close>

text \<open>
  \<open>csv.writer\<close> with the default dialect: a field is quoted when it holds the
  delimiter, the quote character or a character of the line terminator (and when it is
  the empty only field of its row); a quote inside is doubled; fields are joined by
  commas and the row ends with CR LF.
\<close>

definition needs_quotes :: "ustr \<Rightarrow> bool" where
  "needs_quotes f \<longleftrightarrow> (\<exists>c\<in>set f. c = 44 \<or> c = 34 \<or> c = 13 \<or> c = 10)"

definition write_field :: "bool \<Rightarrow> ustr \<Rightarrow> ustr" where
  "write_field quote_empty f =
     (if needs_quotes f \<or> (f = [] \<and> quote_empty)
      then [34] @ concat (map (\<lambda>c. if c = 34 then [34, 34] else [c]) f) @ [34]
      else f)"

fun join_fields :: "ustr list \<Rightarrow> ustr" where
  "join_fields [] = []"
| "join_fields [f] = f"
| "join_fields (f # g # rest) = f @ [44] @ join_fields (g # rest)"

definition writerow :: "ustr list \<Rightarrow> ustr" where
  "writerow row = join_fields (map (write_field (length row = 1)) row) @ [13, 10]"

text \<open>
  \<open>csv.reader\<close> over \<open>io.StringIO(text)\<close>. The stream yields the lines of the text,
  each ending with its LF (the last one may lack it).
\<close>

fun lines_acc :: "ustr \<Rightarrow> ustr \<Rightarrow> ustr list" where
  "lines_acc cur [] = (if cur = [] then [] else [cur])"
| "lines_acc cur (c # cs) =
     (if c = 10 then (cur @ [c]) # lines_acc [] cs else lines_acc (cur @ [c]) cs)"

definition split_lines :: "ustr \<Rightarrow> ustr list" where
  "split_lines text = lines_acc [] text"

text \<open>
  The reader's state machine, for a dialect without escape character: the state, the
  field being read and the fields of the record read so far. A character is \<open>Some c\<close>,
  the end of a line is \<open>None\<close>; the result \<open>None\<close> is the exception \<open>csv.Error\<close>.
\<close>

datatype parser_state =
  START_RECORD | START_FIELD | IN_FIELD | IN_QUOTED_FIELD | QUOTE_IN_QUOTED_FIELD | EAT_CRNL

record parser =
  p_state :: parser_state
  p_field :: ustr
  p_fields :: "ustr list"

definition parse_reset :: parser where
  "parse_reset = \<lparr>p_state = START_RECORD, p_field = [], p_fields = []\<rparr>"

definition field_limit :: nat where
  "field_limit = 131072"

definition parse_save_field :: "parser \<Rightarrow> parser" where
  "parse_save_field p = p\<lparr>p_fields := p_fields p @ [p_field p], p_field := []\<rparr>"

definition parse_add_char :: "parser \<Rightarrow> nat \<Rightarrow> parser option" where
  "parse_add_char p c =
     (if length (p_field p) \<ge> field_limit then None
      else Some (p\<lparr>p_field := p_field p @ [c]\<rparr>))"

text \<open>The case \<open>START_FIELD\<close>, which \<open>START_RECORD\<close> falls through to.\<close>

definition start_field :: "parser \<Rightarrow> nat option \<Rightarrow> parser option" where
  "start_field p c =
     (case c of
        None \<Rightarrow> Some ((parse_save_field p)\<lparr>p_state := START_RECORD\<rparr>)
      | Some x \<Rightarrow>
          if x = 10 \<or> x = 13 then Some ((parse_save_field p)\<lparr>p_state := EAT_CRNL\<rparr>)
          else if x = 34 then Some (p\<lparr>p_state := IN_QUOTED_FIELD\<rparr>)
          else if x = 44 then Some ((parse_save_field p)\<lparr>p_state := START_FIELD\<rparr>)
          else map_option (\<lambda>q. q\<lparr>p_state := IN_FIELD\<rparr>) (parse_add_char p x))"

definition parse_process_char :: "parser \<Rightarrow> nat option \<Rightarrow> parser option" where
  "parse_process_char p c =
     (case p_state p of
        START_RECORD \<Rightarrow>
          (case c of
             None \<Rightarrow> Some p
           | Some x \<Rightarrow> if x = 10 \<or> x = 13 then Some (p\<lparr>p_state := EAT_CRNL\<rparr>)
                       else start_field p c)
      | START_FIELD \<Rightarrow> start_field p c
      | IN_FIELD \<Rightarrow>
          (case c of
             None \<Rightarrow> Some ((parse_save_field p)\<lparr>p_state := START_RECORD\<rparr>)
           | Some x \<Rightarrow>
               if x = 10 \<or> x = 13 then Some ((parse_save_field p)\<lparr>p_state := EAT_CRNL\<rparr>)
               else if x = 44 then Some ((parse_save_field p)\<lparr>p_state := START_FIELD\<rparr>)
               else parse_add_char p x)
      | IN_QUOTED_FIELD \<Rightarrow>
          (case c of
             None \<Rightarrow> Some p
           | Some x \<Rightarrow>
               if x = 34 then Some (p\<lparr>p_state := QUOTE_IN_QUOTED_FIELD\<rparr>)
               else parse_add_char p x)
      | QUOTE_IN_QUOTED_FIELD \<Rightarrow>
          (case c of
             None \<Rightarrow> Some ((parse_save_field p)\<lparr>p_state := START_RECORD\<rparr>)
           | Some x \<Rightarrow>
               if x = 34
               then map_option (\<lambda>q. q\<lparr>p_state := IN_QUOTED_FIELD\<rparr>) (parse_add_char p x)
               else if x = 44 then Some ((parse_save_field p)\<lparr>p_state := START_FIELD\<rparr>)
               else if x = 10 \<or> x = 13
               then Some ((parse_save_field p)\<lparr>p_state := EAT_CRNL\<rparr>)
               else map_option (\<lambda>q. q\<lparr>p_state := IN_FIELD\<rparr>) (parse_add_char p x))
      | EAT_CRNL \<Rightarrow>
          (case c of
             None \<Rightarrow> Some (p\<lparr>p_state := START_RECORD\<rparr>)
           | Some x \<Rightarrow> if x = 10 \<or> x = 13 then Some p else None))"

text \<open>One line: its characters, then the end of the line.\<close>

fun feed_chars :: "parser \<Rightarrow> ustr \<Rightarrow> parser option" where
  "feed_chars p [] = Some p"
| "feed_chars p (c # cs) =
     (case parse_process_char p (Some c) of None \<Rightarrow> None | Some q \<Rightarrow> feed_chars q cs)"

definition feed_line :: "parser \<Rightarrow> ustr \<Rightarrow> parser option" where
  "feed_line p line =
     (case feed_chars p line of None \<Rightarrow> None | Some q \<Rightarrow> parse_process_char q None)"

text \<open>
  The records the reader yields, in order, and the exception that ends the iteration if
  there is one. A record is complete when a line ends in state \<open>START_RECORD\<close>; at
  the end of the input a record that is under way is yielded if it has a field begun
  or an open quote.
\<close>

fun read_lines :: "parser \<Rightarrow> ustr list \<Rightarrow> ustr list list \<times> failure option" where
  "read_lines p [] =
     (if p_field p \<noteq> [] \<or> p_state p = IN_QUOTED_FIELD
      then ([p_fields (parse_save_field p)], None)
      else ([], None))"
| "read_lines p (line # rest) =
     (case feed_line p line of
        None \<Rightarrow> ([], Some CsvError)
      | Some q \<Rightarrow>
          if p_state q = START_RECORD
          then (let (recs, err) = read_lines parse_reset rest in (p_fields q # recs, err))
          else read_lines q rest)"

definition csv_reader :: "ustr \<Rightarrow> ustr list list \<times> failure option" where
  "csv_reader text = read_lines parse_reset (split_lines text)"

text \<open>
  \<open>csv.DictReader\<close>: the first record gives the field names; an empty record is
  skipped; a row is the dictionary of its values by field name, a name the record is
  too short for having the value \<open>None\<close>, which is \<open>Some None\<close> here.
\<close>

type_synonym dict_row = "ustr \<Rightarrow> ustr option option"

definition dict_of_record :: "ustr list \<Rightarrow> ustr list \<Rightarrow> dict_row" where
  "dict_of_record fieldnames row =
     fold (\<lambda>k d. d(k \<mapsto> None)) (drop (length row) fieldnames)
       (fold (\<lambda>(k, v) d. d(k \<mapsto> Some v)) (zip fieldnames row) Map.empty)"

definition dict_reader :: "ustr \<Rightarrow> dict_row list \<times> failure option" where
  "dict_reader text =
     (case csv_reader text of
        ([], err) \<Rightarrow> ([], err)
      | (fieldnames # recs, err) \<Rightarrow>
          (map (dict_of_record fieldnames) (filter (\<lambda>r. r \<noteq> []) recs), err))"

text \<open>\<open>row.get(key, default)\<close>: \<open>None\<close> is the Python value \<open>None\<close>.\<close>

definition row_get :: "dict_row \<Rightarrow> ustr \<Rightarrow> ustr \<Rightarrow> ustr option" where
  "row_get d key dflt = (case d key of None \<Rightarrow> Some dflt | Some v \<Rightarrow> v)"

text \<open>
  \<open>int(s)\<close> for a string. Python first maps the string to ASCII: a code point below 127
  stays, any other whitespace becomes a blank, a decimal digit of another script becomes
  the ASCII digit of its value, and anything else becomes a question mark. Then leading
  and trailing ASCII whitespace is dropped (the separators U+001C to U+001F are not
  among it), and what is left must be an optional sign and decimal digits, where single
  underscores may separate digits; more than 4300 digits are refused. \<open>None\<close> is
  \<open>ValueError\<close>.
\<close>

text \<open>The digit zero of every script that has decimal digits; the other nine follow it.\<close>

definition decimal_zeros :: "nat list" where
  "decimal_zeros =
     [0x660, 0x6F0, 0x7C0, 0x966, 0x9E6, 0xA66, 0xAE6, 0xB66, 0xBE6, 0xC66, 0xCE6, 0xD66,
      0xDE6, 0xE50, 0xED0, 0xF20, 0x1040, 0x1090, 0x17E0, 0x1810, 0x1946, 0x19D0, 0x1A80,
      0x1A90, 0x1B50, 0x1BB0, 0x1C40, 0x1C50, 0xA620, 0xA8D0, 0xA900, 0xA9D0, 0xA9F0, 0xAA50,
      0xABF0, 0xFF10, 0x104A0, 0x10D30, 0x11066, 0x110F0, 0x11136, 0x111D0, 0x112F0, 0x11450,
      0x114D0, 0x11650, 0x116C0, 0x11730, 0x118E0, 0x11950, 0x11C50, 0x11D50, 0x11DA0,
      0x16A60, 0x16AC0, 0x16B50, 0x1D7CE, 0x1D7D8, 0x1D7E2, 0x1D7EC, 0x1D7F6, 0x1E140,
      0x1E2F0, 0x1E950, 0x1FBF0]"

definition decimal_value :: "nat \<Rightarrow> nat option" where
  "decimal_value c = map_option (\<lambda>z. c - z) (find (\<lambda>z. z \<le> c \<and> c < z + 10) decimal_zeros)"

definition to_ascii :: "nat \<Rightarrow> nat" where
  "to_ascii c =
     (if c < 127 then c
      else if is_space c then 32
      else case decimal_value c of Some d \<Rightarrow> 48 + d | None \<Rightarrow> 63)"

definition ascii_space :: "nat \<Rightarrow> bool" where
  "ascii_space c \<longleftrightarrow> (9 \<le> c \<and> c \<le> 13) \<or> c = 32"

definition is_digit :: "nat \<Rightarrow> bool" where
  "is_digit c \<longleftrightarrow> 48 \<le> c \<and> c \<le> 57"

fun digits_ok :: "bool \<Rightarrow> ustr \<Rightarrow> bool" where
  "digits_ok prev_digit [] = prev_digit"
| "digits_ok prev_digit (c # cs) =
     (if is_digit c then digits_ok True cs
      else if c = 95 \<and> prev_digit then digits_ok False cs
      else False)"

definition digits_value :: "ustr \<Rightarrow> nat" where
  "digits_value s = fold (\<lambda>c a. if c = 95 then a else a * 10 + (c - 48)) s 0"

definition py_int :: "ustr \<Rightarrow> int option" where
  "py_int s =
     (let t = rev (dropWhile ascii_space (rev (dropWhile ascii_space (map to_ascii s))));
          (neg, body) = (case t of
                           [] \<Rightarrow> (False, t)
                         | c # r \<Rightarrow> if c = 45 then (True, r) else if c = 43 then (False, r)
                                    else (False, t))
      in if digits_ok False body \<and> length (filter is_digit body) \<le> 4300
         then Some (if neg then - int (digits_value body) else int (digits_value body))
         else None)"

section \<open>CSV export and import\<close>

text \<open>\<open>datetime.isoformat()\<close>; \<open>zfill\<close> pads a number with zeros on the left.\<close>

definition zfill :: "nat \<Rightarrow> nat \<Rightarrow> ustr" where
  "zfill width n = replicate (width - length (str_nat n)) 48 @ str_nat n"

definition isoformat :: "datetime \<Rightarrow> ustr" where
  "isoformat d =
     zfill 4 (year d) @ str ''-'' @ zfill 2 (month d) @ str ''-'' @ zfill 2 (day d) @ str ''T'' @
     zfill 2 (hour d) @ str '':'' @ zfill 2 (minute d) @ str '':'' @ zfill 2 (second d) @
     (if microsecond d = 0 then [] else str ''.'' @ zfill 6 (microsecond d))"

text \<open>
  \<open>export_observations\<close>: the observations joined with their listing and their field,
  one CSV row each after the header row. The response carries this text as a file.
\<close>

definition export_rows :: "store \<Rightarrow> ustr list list" where
  "export_rows s =
     [[listing_id_text l, canonical f, str_nat (if filled ob then 1 else 0), analyst ob,
       isoformat (checked_at ob)].
        ob \<leftarrow> observation_table s,
        l \<leftarrow> listing_table s, listing_id ob = lid l,
        f \<leftarrow> field_table s, field_id ob = fid f]"

definition export_observations :: "store \<Rightarrow> ustr" where
  "export_observations s =
     writerow [str ''listing_id'', str ''field'', str ''filled'', str ''analyst'', str ''checked_at'']
     @ concat (map writerow (export_rows s))"

text \<open>
  The loop of \<open>import_obs\<close> over the rows. It threads the session (what queries see) and
  the committed store: creating a listing or a field commits the session, an added
  observation stays pending until the next commit, and an exception leaves the
  committed store.
\<close>

fun import_rows ::
  "ustr \<Rightarrow> ustr \<Rightarrow> datetime \<Rightarrow> dict_row list \<Rightarrow> store \<times> store \<Rightarrow> failure \<times> store + store \<times> store" where
  "import_rows b an now [] (s, c) = Inr (s, c)"
| "import_rows b an now (row # rest) (s, c) =
     (case row_get row (str ''listing_id'') [] of
        None \<Rightarrow> Inl (AttributeError, c)
      | Some v1 \<Rightarrow>
     (case row_get row (str ''field'') [] of
        None \<Rightarrow> Inl (AttributeError, c)
      | Some v2 \<Rightarrow>
     (case row_get row (str ''filled'') (str ''0'') of
        None \<Rightarrow> Inl (TypeError, c)
      | Some v3 \<Rightarrow>
     (case py_int v3 of
        None \<Rightarrow> Inl (ValueError, c)
      | Some i \<Rightarrow>
          let listing_text = strip v1; field_name = strip v2; fl = (i \<noteq> 0) in
          if listing_text = [] \<or> field_name = [] then import_rows b an now rest (s, c)
          else
            let (lst, s1, c1) =
                  (case find (\<lambda>l. listing_id_text l = listing_text \<and> batch l = b)
                          (listing_table s) of
                     Some l \<Rightarrow> (l, s, c)
                   | None \<Rightarrow> (let (l, s') = insert_listing b listing_text now s in (l, s', s')));
                (fld, s2, c2) =
                  (case find (\<lambda>f. canonical f = field_name) (field_table s1) of
                     Some f \<Rightarrow> (f, s1, c1)
                   | None \<Rightarrow> (let (f, s') = insert_field field_name now s1 in (f, s', s')))
            in import_rows b an now rest
                 (insert_observation (lid lst) (fid fld) fl field_name an now s2, c2)))))"

text \<open>
  \<open>import_obs\<close> for a POST request: the outcome (a response, or the exception that
  escapes) and the store the request leaves. \<open>file\<close> is the decoded text of the upload.
\<close>

definition import_obs ::
  "ustr option \<Rightarrow> ustr option \<Rightarrow> ustr option \<Rightarrow> datetime \<Rightarrow> store \<Rightarrow> (failure + ustr \<times> nat) \<times> store" where
  "import_obs file batch_arg analyst_arg now s =
     (let b = (case batch_arg of None \<Rightarrow> str ''default'' | Some x \<Rightarrow> x);
          an = (case analyst_arg of None \<Rightarrow> str ''import_user'' | Some x \<Rightarrow> x)
      in case file of
           None \<Rightarrow> (Inr (str ''no file'', 400), s)
         | Some text \<Rightarrow>
             (let (rows, err) = dict_reader text in
              case import_rows b an now rows (s, s) of
                Inl (e, c) \<Rightarrow> (Inl e, c)
              | Inr (s', c) \<Rightarrow>
                  (case err of
                     Some e \<Rightarrow> (Inl e, c)
                   | None \<Rightarrow> (Inr (str ''imported'', 200), s'))))"

section \<open>Vocabulary of the properties\<close>



text \<open>
  The primary keys of \<open>listing\<close> and \<open>field\<close> are unique; every store the operations
  build from the empty one has this property.
\<close>

definition unique_keys :: "store \<Rightarrow> bool" where
  "unique_keys s \<longleftrightarrow> distinct (map lid (listing_table s)) \<and> distinct (map fid (field_table s))"

text \<open>The listing of an observation belongs to batch \<open>b\<close>.\<close>

definition in_batch :: "ustr \<Rightarrow> store \<Rightarrow> observation \<Rightarrow> bool" where
  "in_batch b s ob \<longleftrightarrow> (\<exists>l\<in>set (listing_table s). lid l = listing_id ob \<and> batch l = b)"

text \<open>A small store for the examples: two listings, one field, one observation.\<close>

definition sample_store :: store where
  "sample_store =
     \<lparr>listing_table =
        [\<lparr>lid = 1, batch = str ''default'', listing_id_text = str ''A1'', l_created_at = sample_time\<rparr>,
         \<lparr>lid = 2, batch = str ''default'', listing_id_text = str ''A2'', l_created_at = sample_time\<rparr>],
      field_table = [\<lparr>fid = 1, canonical = str ''Garage'', f_created_at = sample_time\<rparr>],
      observation_table =
        [\<lparr>oid = 1, listing_id = 1, field_id = 1, filled = True, raw_text = str ''Garage'',
          analyst = str ''unknown'', checked_at = sample_time\<rparr>]\<rparr>"

text \<open>A request for the examples, and \<open>sample_store\<close> after a bulk marking of field 1.\<close>

definition sample_request :: listing_request where
  "sample_request =
     \<lparr>req_listing_id = Some (str '' A9 ''),
      req_observations =
        [\<lparr>field_text = Some (str ''Pool''), filled_value = Some (JBool True)\<rparr>,
         \<lparr>field_text = Some (str ''  ''), filled_value = None\<rparr>],
      req_analyst = None\<rparr>"

definition sample_store_marked :: store where
  "sample_store_marked =
     sample_store\<lparr>observation_table := observation_table sample_store @
       [\<lparr>oid = 2, listing_id = 2, field_id = 1, filled = False, raw_text = str ''Garage'',
         analyst = str ''bulk_user'', checked_at = sample_time\<rparr>]\<rparr>"

text \<open>
  A store in which one (listing, field) pair has two observations, and the request that
  produces it from the empty store.
\<close>

definition dup_request :: listing_request where
  "dup_request =
     \<lparr>req_listing_id = Some (str ''A1''),
      req_observations =
        [\<lparr>field_text = Some (str ''Garage''), filled_value = Some (JBool True)\<rparr>,
         \<lparr>field_text = Some (str ''Garage''), filled_value = Some (JBool False)\<rparr>],
      req_analyst = None\<rparr>"

definition dup_store :: store where
  "dup_store =
     \<lparr>listing_table =
        [\<lparr>lid = 1, batch = str ''default'', listing_id_text = str ''A1'', l_created_at = sample_time\<rparr>],
      field_table = [\<lparr>fid = 1, canonical = str ''Garage'', f_created_at = sample_time\<rparr>],
      observation_table =
        [\<lparr>oid = 1, listing_id = 1, field_id = 1, filled = True, raw_text = str ''Garage'',
          analyst = str ''unknown'', checked_at = sample_time\<rparr>,
         \<lparr>oid = 2, listing_id = 1, field_id = 1, filled = False, raw_text = str ''Garage'',
          analyst = str ''unknown'', checked_at = sample_time\<rparr>]\<rparr>"

text \<open>The observations of a (listing, field) pair, in query order.\<close>

definition pair_observations :: "nat \<Rightarrow> nat \<Rightarrow> store \<Rightarrow> observation list" where
  "pair_observations l f s =
     filter (\<lambda>ob. listing_id ob = l \<and> field_id ob = f) (observation_table s)"

text \<open>The formula the export writes in column \<open>c\<close> of row \<open>r\<close>, for \<open>n\<close> listings.\<close>

definition summary_formula :: "nat \<Rightarrow> nat \<Rightarrow> nat \<Rightarrow> expr" where
  "summary_formula n c r =
     (let cols = summary_columns n in
      if c = n + 2 then filled_formula (first_list_col_letter cols) (last_list_col_letter cols) r
      else if c = n + 3 then empty_formula (first_list_col_letter cols) (last_list_col_letter cols) r
      else if c = n + 4 then pct_formula (filled_col_letter cols) (empty_col_letter cols) r
      else remove_formula (filled_col_letter cols) (empty_col_letter cols) r)"

text \<open>How often a glyph occurs among the listing cells of a matrix row.\<close>

definition glyph_count :: "ustr \<Rightarrow> ustr list \<Rightarrow> nat" where
  "glyph_count g row = length (filter (\<lambda>x. x = g) (tl row))"

text \<open>
  A store with ten listings and one field, observed filled for the first four listings
  and empty for the other six.
\<close>

definition matrix_store :: store where
  "matrix_store =
     \<lparr>listing_table =
        map (\<lambda>i. \<lparr>lid = i, batch = str ''default'', listing_id_text = str ''H'' @ str_nat i,
                    l_created_at = sample_time\<rparr>) [1, 2, 3, 4, 5, 6, 7, 8, 9, 10],
      field_table = [\<lparr>fid = 1, canonical = str ''Garage'', f_created_at = sample_time\<rparr>],
      observation_table =
        map (\<lambda>i. \<lparr>oid = i, listing_id = i, field_id = 1, filled = (i \<le> 4),
                    raw_text = str ''Garage'', analyst = str ''unknown'',
                    checked_at = sample_time\<rparr>) [1, 2, 3, 4, 5, 6, 7, 8, 9, 10]\<rparr>"

text \<open>
  The reader, character by character: the same records as \<open>read_lines\<close> on the lines
  of the text. After a line feed comes the end of the line; \<open>pending\<close> says that the
  current line has characters.
\<close>

fun scan :: "parser \<Rightarrow> bool \<Rightarrow> ustr \<Rightarrow> ustr list list \<times> failure option" where
  "scan q pending [] =
     (if pending
      then (case parse_process_char q None of
              None \<Rightarrow> ([], Some CsvError)
            | Some q' \<Rightarrow> if p_state q' = START_RECORD then ([p_fields q'], None)
                         else read_lines q' [])
      else read_lines q [])"
| "scan q pending (c # cs) =
     (case parse_process_char q (Some c) of
        None \<Rightarrow> ([], Some CsvError)
      | Some q1 \<Rightarrow>
          if c = 10
          then (case parse_process_char q1 None of
                  None \<Rightarrow> ([], Some CsvError)
                | Some q2 \<Rightarrow>
                    if p_state q2 = START_RECORD
                    then (let (recs, err) = scan parse_reset False cs in (p_fields q2 # recs, err))
                    else scan q2 False cs)
          else scan q1 True cs)"

text \<open>The (listing text, field name, filled) triples of a store.\<close>

definition triple_list :: "store \<Rightarrow> (ustr \<times> ustr \<times> bool) list" where
  "triple_list s =
     [(listing_id_text l, canonical f, filled ob).
        ob \<leftarrow> observation_table s,
        l \<leftarrow> listing_table s, listing_id ob = lid l,
        f \<leftarrow> field_table s, field_id ob = fid f]"

text \<open>
  Listing texts and field names are trimmed and not blank: every path that creates a
  listing or a field stores the text it has trimmed and found not blank.
\<close>

definition clean_texts :: "store \<Rightarrow> bool" where
  "clean_texts s \<longleftrightarrow>
     (\<forall>l\<in>set (listing_table s). strip (listing_id_text l) = listing_id_text l \<and> listing_id_text l \<noteq> [])
   \<and> (\<forall>f\<in>set (field_table s). strip (canonical f) = canonical f \<and> canonical f \<noteq> [])"

text \<open>No text of the export is longer than the reader's field limit.\<close>

definition export_fits :: "store \<Rightarrow> bool" where
  "export_fits s \<longleftrightarrow> (\<forall>row\<in>set (export_rows s). \<forall>f\<in>set row. length f \<le> field_limit)"

text \<open>Observations reference existing rows, and primary keys are unique.\<close>

definition refs_ok :: "store \<Rightarrow> bool" where
  "refs_ok s \<longleftrightarrow>
     unique_keys s
   \<and> (\<forall>ob\<in>set (observation_table s).
         listing_id ob \<in> lid ` set (listing_table s) \<and> field_id ob \<in> fid ` set (field_table s))"

text \<open>The header line of an import file.\<close>

definition csv_header :: ustr where
  "csv_header = str ''listing_id,field,filled'' @ [13, 10]"

section \<open>Properties\<close>






lemma find_or_create_field_unencodable:
  "find_or_create_field [0xD800] now s = Inl UnicodeEncodeError"
  by (simp add: find_or_create_field_def strip_def is_space_def encodable_def)








text \<open>
  C8. A request whose listing id is blank after trimming is answered with status 400
  (not a 2xx status) and the JSON error body, and the store is left as it was: no
  listing and no observation is created.
\<close>

theorem add_listing_blank_rejected:
  assumes "strip (case req_listing_id data of None \<Rightarrow> [] | Some t \<Rightarrow> t) = []"
  shows "add_listing b data now s =
           (Inr (400, JObj [(str ''error'', JStr (str ''listing_id required''))]), s)
         \<and> (\<exists>r. fst (add_listing b data now s) = Inr r \<and> fst r \<notin> {200..299})"
  using assms by (simp add: add_listing_def)

theorem add_listing_blank_rejected_witness:
  "strip (case req_listing_id (sample_request\<lparr>req_listing_id := Some (str ''   '')\<rparr>) of
            None \<Rightarrow> [] | Some t \<Rightarrow> t) = []
   \<and> snd (add_listing (str ''default'') (sample_request\<lparr>req_listing_id := Some (str ''   '')\<rparr>)
            sample_time sample_store) = sample_store"
proof -
  have h: "strip (case req_listing_id (sample_request\<lparr>req_listing_id := Some (str ''   '')\<rparr>) of
            None \<Rightarrow> [] | Some t \<Rightarrow> t) = []"
    by (simp add: strip_def is_space_def)
  from add_listing_blank_rejected[OF h, of "str ''default''" sample_time sample_store] h
  show ?thesis by simp
qed


lemma find_append:
  "find P (xs @ ys) = (case find P xs of Some x \<Rightarrow> Some x | None \<Rightarrow> find P ys)"
  by (induction xs) auto

lemma first_observation_insert_other:
  "first_observation l f s = Some ob \<Longrightarrow>
   first_observation l f (insert_observation l' f' fl raw an now s) = Some ob"
  by (simp add: first_observation_def insert_observation_def find_append)

lemma first_observation_insert_same:
  "first_observation l f (insert_observation l f fl raw an now s) \<noteq> None"
  by (simp add: first_observation_def insert_observation_def find_append split: option.splits)

lemma first_observation_insert_keeps:
  "first_observation l f s \<noteq> None \<Longrightarrow>
   first_observation l f (insert_observation l' f' fl raw an now s) \<noteq> None"
  using first_observation_insert_other by fastforce

lemma first_observation_append:
  "first_observation l f s \<noteq> None \<Longrightarrow> observation_table s' = observation_table s @ new \<Longrightarrow>
   first_observation l f s' \<noteq> None"
  by (auto simp: first_observation_def find_append split: option.splits)

lemma first_observation_prefix_None:
  "first_observation l f s' = None \<Longrightarrow> observation_table s' = observation_table s @ new \<Longrightarrow>
   first_observation l f s = None"
  by (auto simp: first_observation_def find_append split: option.splits)

lemma mark_listings_effect:
  "mark_listings f fld an now ls (c, s) = (c', s') \<Longrightarrow>
   \<exists>new. observation_table s' = observation_table s @ new
     \<and> listing_table s' = listing_table s \<and> field_table s' = field_table s
     \<and> c' = c + length new
     \<and> (\<forall>ob\<in>set new. \<not> filled ob \<and> field_id ob = f \<and> listing_id ob \<in> lid ` set ls
            \<and> raw_text ob = canonical fld \<and> analyst ob = an
            \<and> first_observation (listing_id ob) f s = None)
     \<and> distinct (map listing_id new)
     \<and> (\<forall>l\<in>set ls. first_observation (lid l) f s' \<noteq> None)"
proof (induction ls arbitrary: c s)
  case Nil
  then show ?case by simp
next
  case (Cons l ls)
  show ?case
  proof (cases "first_observation (lid l) f s")
    case (Some ob0)
    with Cons.prems have "mark_listings f fld an now ls (c, s) = (c', s')" by simp
    from Cons.IH[OF this] obtain new where n:
      "observation_table s' = observation_table s @ new"
      "listing_table s' = listing_table s" "field_table s' = field_table s"
      "c' = c + length new"
      "\<forall>ob\<in>set new. \<not> filled ob \<and> field_id ob = f \<and> listing_id ob \<in> lid ` set ls
            \<and> raw_text ob = canonical fld \<and> analyst ob = an
            \<and> first_observation (listing_id ob) f s = None"
      "distinct (map listing_id new)"
      "\<forall>l\<in>set ls. first_observation (lid l) f s' \<noteq> None"
      by blast
    have "first_observation (lid l) f s' \<noteq> None"
      using Some n(1) first_observation_append[of "lid l" f s s' new] by simp
    with n show ?thesis
      by (intro exI[of _ new]) auto
  next
    case None
    define s1 where "s1 = insert_observation (lid l) f False (canonical fld) an now s"
    define ob1 where "ob1 = \<lparr>oid = next_id (map oid (observation_table s)), listing_id = lid l,
      field_id = f, filled = False, raw_text = canonical fld, analyst = an, checked_at = now\<rparr>"
    have s1: "observation_table s1 = observation_table s @ [ob1]"
      "listing_table s1 = listing_table s" "field_table s1 = field_table s"
      by (simp_all add: s1_def ob1_def insert_observation_def)
    from None Cons.prems have "mark_listings f fld an now ls (c + 1, s1) = (c', s')"
      by (simp add: s1_def)
    from Cons.IH[OF this] obtain new where n:
      "observation_table s' = observation_table s1 @ new"
      "listing_table s' = listing_table s1" "field_table s' = field_table s1"
      "c' = c + 1 + length new"
      "\<forall>ob\<in>set new. \<not> filled ob \<and> field_id ob = f \<and> listing_id ob \<in> lid ` set ls
            \<and> raw_text ob = canonical fld \<and> analyst ob = an
            \<and> first_observation (listing_id ob) f s1 = None"
      "distinct (map listing_id new)"
      "\<forall>l\<in>set ls. first_observation (lid l) f s' \<noteq> None"
      by blast
    have a: "observation_table s' = observation_table s @ (ob1 # new)"
      using n(1) s1(1) by simp
    have b: "first_observation (listing_id ob) f s = None" if "ob \<in> set new" for ob
      using n(5) that first_observation_prefix_None[OF _ s1(1)] by blast
    have c: "listing_id ob \<noteq> lid l" if "ob \<in> set new" for ob
    proof
      assume "listing_id ob = lid l"
      moreover have "first_observation (lid l) f s1 \<noteq> None"
        unfolding s1_def by (rule first_observation_insert_same)
      ultimately show False using n(5) that by auto
    qed
    have d: "first_observation (lid l) f s' \<noteq> None"
      using first_observation_append[OF _ n(1)] first_observation_insert_same[of "lid l" f False "canonical fld" an now s]
      by (simp add: s1_def)
    show ?thesis
      apply (rule exI[of _ "ob1 # new"])
      using a b c d n s1 None by (auto simp: ob1_def)
  qed
qed

lemma mark_listings_noop:
  "\<forall>l\<in>set ls. first_observation (lid l) f s \<noteq> None \<Longrightarrow>
   mark_listings f fld an now ls (c, s) = (c, s)"
  by (induction ls) auto

text \<open>
  C6. A run of \<open>bulk_mark_empty\<close> for a field appends observations that all have
  \<open>filled = False\<close> and that field, one per listing at most, and only for listings that
  had no observation for the field before the run; its count is their number. A second
  run right after it, whatever its analyst and time, creates nothing: its count is 0 and
  the store stays as the first run left it.
\<close>

theorem bulk_mark_empty_fills_gaps_once:
  assumes "bulk_mark_empty f a now s = Inr (c, s')"
  shows "\<exists>new. observation_table s' = observation_table s @ new
           \<and> c = length new
           \<and> (\<forall>ob\<in>set new. \<not> filled ob \<and> field_id ob = f
                  \<and> listing_id ob \<in> lid ` set (listing_table s)
                  \<and> first_observation (listing_id ob) f s = None)
           \<and> distinct (map listing_id new)
           \<and> bulk_mark_empty f a' now' s' = Inr (0, s')"
proof -
  let ?an = "case a of None \<Rightarrow> str ''bulk_user'' | Some x \<Rightarrow> x"
  let ?an' = "case a' of None \<Rightarrow> str ''bulk_user'' | Some x \<Rightarrow> x"
  from assms obtain fld where fld: "find (\<lambda>x. fid x = f) (field_table s) = Some fld"
    and run: "mark_listings f fld ?an now (listing_table s) (0, s) = (c, s')"
    by (auto simp: bulk_mark_empty_def Let_def split: option.splits)
  from mark_listings_effect[OF run] obtain new where n:
    "observation_table s' = observation_table s @ new"
    "listing_table s' = listing_table s" "field_table s' = field_table s"
    "c = 0 + length new"
    "\<forall>ob\<in>set new. \<not> filled ob \<and> field_id ob = f \<and> listing_id ob \<in> lid ` set (listing_table s)
            \<and> raw_text ob = canonical fld \<and> analyst ob = ?an
            \<and> first_observation (listing_id ob) f s = None"
    "distinct (map listing_id new)"
    "\<forall>l\<in>set (listing_table s). first_observation (lid l) f s' \<noteq> None"
    by blast
  have "mark_listings f fld ?an' now' (listing_table s') (0, s') = (0, s')"
    using n(7) by (intro mark_listings_noop) (simp add: n(2))
  then have "bulk_mark_empty f a' now' s' = Inr (0, s')"
    using fld by (simp add: bulk_mark_empty_def Let_def n(3))
  with n show ?thesis by (intro exI[of _ new]) auto
qed

lemma sample_bulk_run:
  "bulk_mark_empty 1 None sample_time sample_store = Inr (1, sample_store_marked)"
  by (simp add: bulk_mark_empty_def sample_store_def sample_store_marked_def
      first_observation_def insert_observation_def next_id_def)

theorem bulk_mark_empty_fills_gaps_once_witness:
  "bulk_mark_empty 1 None sample_time sample_store = Inr (1, sample_store_marked)
   \<and> bulk_mark_empty 1 (Some (str ''me'')) sample_time sample_store_marked
       = Inr (0, sample_store_marked)"
proof -
  from bulk_mark_empty_fills_gaps_once[OF sample_bulk_run, of "Some (str ''me'')" sample_time]
  show ?thesis using sample_bulk_run by blast
qed

text \<open>
  C9. \<open>bulk_mark_empty\<close> only appends observations: the listings and the fields are
  the same after the call, and the observation table after the call is the one before
  it followed by the new rows, so every earlier observation is there unchanged.
\<close>

theorem bulk_mark_empty_only_appends:
  assumes "bulk_mark_empty f a now s = Inr (c, s')"
  shows "listing_table s' = listing_table s \<and> field_table s' = field_table s
         \<and> (\<exists>new. observation_table s' = observation_table s @ new)"
proof -
  from assms obtain fld an where
    "mark_listings f fld an now (listing_table s) (0, s) = (c, s')"
    by (auto simp: bulk_mark_empty_def Let_def split: option.splits)
  from mark_listings_effect[OF this] show ?thesis by blast
qed

theorem bulk_mark_empty_only_appends_witness:
  "bulk_mark_empty 1 None sample_time sample_store = Inr (1, sample_store_marked)
   \<and> listing_table sample_store_marked = listing_table sample_store
   \<and> field_table sample_store_marked = field_table sample_store
   \<and> (\<exists>new. observation_table sample_store_marked = observation_table sample_store @ new)"
  using bulk_mark_empty_only_appends[OF sample_bulk_run] sample_bulk_run by blast

lemma listing_match_count:
  fixes ls :: "listing list" and ob :: observation and f :: field
  shows "distinct (map lid ls) \<Longrightarrow>
   length [(f, ob, l). l \<leftarrow> ls, listing_id ob = lid l, batch l = b] =
     (if \<exists>l\<in>set ls. lid l = listing_id ob \<and> batch l = b then 1 else 0)"
  by (induction ls) (auto simp: rev_image_eqI)

lemma field_join_count:
  fixes ls :: "listing list" and obs :: "observation list" and f :: field
  assumes "distinct (map lid ls)"
  shows "length [(f, ob, l). ob \<leftarrow> obs, fid f = field_id ob, l \<leftarrow> ls, listing_id ob = lid l, batch l = b] =
     length (filter (\<lambda>ob. field_id ob = fid f \<and> (\<exists>l\<in>set ls. lid l = listing_id ob \<and> batch l = b)) obs)"
proof -
  define inner where "inner = (\<lambda>ob :: observation. [(f, ob, l). l \<leftarrow> ls, listing_id ob = lid l, batch l = b])"
  define hit where "hit = (\<lambda>ob :: observation. \<exists>l\<in>set ls. lid l = listing_id ob \<and> batch l = b)"
  have inner: "length (inner ob) = (if hit ob then 1 else 0)" for ob
    unfolding inner_def hit_def by (rule listing_match_count[OF assms])
  have "length (concat (map (\<lambda>ob. if fid f = field_id ob then inner ob else []) obs)) =
        length (filter (\<lambda>ob. field_id ob = fid f \<and> hit ob) obs)"
  proof (induction obs)
    case Nil
    then show ?case by simp
  next
    case (Cons ob obs)
    have "length (concat (map (\<lambda>ob. if fid f = field_id ob then inner ob else []) (ob # obs))) =
          (if fid f = field_id ob then length (inner ob) else 0) +
          length (concat (map (\<lambda>ob. if fid f = field_id ob then inner ob else []) obs))"
      by (simp del: length_concat)
    also have "\<dots> = (if field_id ob = fid f \<and> hit ob then 1 else 0) +
          length (filter (\<lambda>ob. field_id ob = fid f \<and> hit ob) obs)"
      unfolding Cons.IH inner by auto
    also have "\<dots> = length (filter (\<lambda>ob. field_id ob = fid f \<and> hit ob) (ob # obs))"
      by simp
    finally show ?case .
  qed
  then show ?thesis unfolding inner_def hit_def .
qed

lemma join_count:
  fixes ls :: "listing list" and obs :: "observation list" and fs :: "field list"
  assumes "distinct (map lid ls)" and "distinct (map fid fs)" and "k \<in> fid ` set fs"
  shows "length (filter (\<lambda>(f, ob, l). fid f = k)
           [(f, ob, l). f \<leftarrow> fs, ob \<leftarrow> obs, fid f = field_id ob,
                        l \<leftarrow> ls, listing_id ob = lid l, batch l = b]) =
         length (filter (\<lambda>ob. field_id ob = k \<and> (\<exists>l\<in>set ls. lid l = listing_id ob \<and> batch l = b)) obs)"
proof -
  define per where "per = (\<lambda>f :: field. [(f, ob, l). ob \<leftarrow> obs, fid f = field_id ob, l \<leftarrow> ls, listing_id ob = lid l, batch l = b])"
  define P where "P = (\<lambda>(f :: field, ob :: observation, l :: listing). fid f = k)"
  define n where "n = length (filter (\<lambda>ob. field_id ob = k \<and> (\<exists>l\<in>set ls. lid l = listing_id ob \<and> batch l = b)) obs)"
  have hit: "filter P (per f) = per f" if "fid f = k" for f
    using that unfolding per_def P_def by (intro filter_True) auto
  have miss: "filter P (per f) = []" if "fid f \<noteq> k" for f
    using that unfolding per_def P_def by (intro filter_False) auto
  have cons: "filter P (concat (map per (g # gs))) = filter P (per g) @ filter P (concat (map per gs))" for g gs
    by (simp del: filter_concat)
  have none: "filter P (concat (map per gs)) = []" if "k \<notin> fid ` set gs" for gs
    using that
  proof (induction gs)
    case Nil
    then show ?case by simp
  next
    case (Cons g gs)
    then have "fid g \<noteq> k" "k \<notin> fid ` set gs" by auto
    then show ?case using miss[of g] Cons.IH unfolding cons by simp
  qed
  have len: "length (per f) = n" if "fid f = k" for f
    unfolding per_def n_def that[symmetric] by (rule field_join_count[OF assms(1)])
  have "length (filter P (concat (map per fs))) = n"
    using assms(2,3)
  proof (induction fs)
    case Nil
    then show ?case by simp
  next
    case (Cons f fs)
    show ?case
    proof (cases "fid f = k")
      case True
      then have "k \<notin> fid ` set fs" using Cons.prems(1) by auto
      then have "filter P (concat (map per fs)) = []" by (rule none)
      then have "filter P (concat (map per (f # fs))) = per f"
        unfolding cons using hit[OF True] by simp
      then show ?thesis using len[OF True] by simp
    next
      case False
      then have "k \<in> fid ` set fs" using Cons.prems(2) by auto
      with Cons.prems(1) have "distinct (map fid fs)" "k \<in> fid ` set fs" by simp_all
      then have IH: "length (filter P (concat (map per fs))) = n"
        by (rule Cons.IH)
      have "filter P (concat (map per (f # fs))) = filter P (concat (map per fs))"
        unfolding cons using miss[OF False] by simp
      with IH show ?thesis by simp
    qed
  qed
  then show ?thesis unfolding per_def P_def n_def .
qed


lemma concat_map_filter_irrelevant:
  assumes "\<And>x. x \<in> set xs \<Longrightarrow> \<not> P x \<Longrightarrow> h x = []"
  shows "concat (map h (filter P xs)) = concat (map h xs)"
  using assms
proof (induction xs)
  case Nil
  then show ?case by simp
next
  case (Cons x xs)
  have IH: "concat (map h (filter P xs)) = concat (map h xs)"
    by (rule Cons.IH) (simp add: Cons.prems)
  show ?case
  proof (cases "P x")
    case True
    then show ?thesis by (simp add: IH)
  next
    case False
    then have "h x = []" by (simp add: Cons.prems)
    with False show ?thesis by (simp add: IH)
  qed
qed

lemma concat_if_empty:
  "(\<forall>l\<in>set ls. \<not> (A l \<and> B l)) \<Longrightarrow>
   concat (map (\<lambda>l. if A l then (if B l then [g l] else []) else []) ls) = []"
  unfolding concat_eq_Nil_conv by auto

lemma listing_match_none:
  fixes ls :: "listing list" and ob :: observation and f :: field
  assumes "\<not> (\<exists>l\<in>set ls. lid l = listing_id ob \<and> batch l = b)"
  shows "[(f, ob, l). l \<leftarrow> ls, listing_id ob = lid l, batch l = b] = []"
proof -
  have "\<forall>l\<in>set ls. \<not> (listing_id ob = lid l \<and> batch l = b)"
    using assms by metis
  then show ?thesis by (rule concat_if_empty)
qed

lemma summary_join_in_batch_only:
  "summary_join b (s\<lparr>observation_table := filter (in_batch b s) (observation_table s)\<rparr>) =
   summary_join b s"
proof -
  define inner where "inner = (\<lambda>(f :: field) (ob :: observation).
      if fid f = field_id ob
      then [(f, ob, l). l \<leftarrow> listing_table s, listing_id ob = lid l, batch l = b] else [])"
  have empty: "inner f ob = []" if "\<not> in_batch b s ob" for f ob
  proof -
    have "[(f, ob, l). l \<leftarrow> listing_table s, listing_id ob = lid l, batch l = b] = []"
      by (rule listing_match_none) (use that in \<open>simp add: in_batch_def\<close>)
    then show ?thesis unfolding inner_def by (simp only: if_cancel)
  qed
  have "concat (map (inner f) (filter (in_batch b s) (observation_table s))) =
        concat (map (inner f) (observation_table s))" for f
    by (rule concat_map_filter_irrelevant) (rule empty)
  then have "concat (map (\<lambda>f. concat (map (inner f) (filter (in_batch b s) (observation_table s))))
                (field_table s)) =
             concat (map (\<lambda>f. concat (map (inner f) (observation_table s))) (field_table s))"
    by (simp only:)
  moreover have "listing_table (s\<lparr>observation_table := filter (in_batch b s) (observation_table s)\<rparr>) = listing_table s"
    "field_table (s\<lparr>observation_table := filter (in_batch b s) (observation_table s)\<rparr>) = field_table s"
    "observation_table (s\<lparr>observation_table := filter (in_batch b s) (observation_table s)\<rparr>) =
       filter (in_batch b s) (observation_table s)"
    by simp_all
  ultimately show ?thesis
    unfolding summary_join_def inner_def by (simp only:)
qed

lemma summary_join_field:
  "(f, ob, l) \<in> set (summary_join b s) \<Longrightarrow> f \<in> set (field_table s)"
  by (auto simp: summary_join_def)

lemma summary_group_sum:
  "sum_filled (summary_group k g) + sum_empty (summary_group k g) = sum_sample (summary_group k g)"
proof -
  have "(\<lambda>(f :: field, ob :: observation, l :: listing). \<not> filled ob) =
        (\<lambda>x. \<not> (case x of (f, ob, l) \<Rightarrow> filled ob))"
    by (simp add: fun_eq_iff)
  then show ?thesis
    using sum_length_filter_compl[of "\<lambda>(f, ob, l). filled ob" g]
    by (simp add: summary_group_def)
qed

text \<open>
  C1. In a store whose primary keys are unique, every row of \<open>batch_summary b\<close> has
  \<open>filled + empty = sample\<close>, and \<open>sample\<close> is the number of observations of the
  row's field whose listing belongs to batch \<open>b\<close>. Observations whose listing is
  outside the batch contribute to no row: the summary is the same when they are removed
  from the store.
\<close>

theorem batch_summary_counts:
  assumes "unique_keys s"
  shows "(\<forall>r\<in>set (batch_summary b s).
            sum_filled r + sum_empty r = sum_sample r
          \<and> sum_sample r =
              length (filter (\<lambda>ob. field_id ob = sum_field_id r \<and> in_batch b s ob)
                        (observation_table s)))
       \<and> batch_summary b (s\<lparr>observation_table := filter (in_batch b s) (observation_table s)\<rparr>)
           = batch_summary b s"
proof (intro conjI ballI)
  fix r assume "r \<in> set (batch_summary b s)"
  moreover have "set (batch_summary b s) =
      (\<lambda>k. summary_group k (filter (\<lambda>(f, ob, l). fid f = k) (summary_join b s))) `
        ((\<lambda>(f, ob, l). fid f) ` set (summary_join b s))"
    by (simp add: batch_summary_def Let_def)
  ultimately obtain k where k: "k \<in> (\<lambda>(f, ob, l). fid f) ` set (summary_join b s)"
    and r: "r = summary_group k (filter (\<lambda>(f, ob, l). fid f = k) (summary_join b s))"
    by blast
  show "sum_filled r + sum_empty r = sum_sample r"
    unfolding r by (rule summary_group_sum)
  from k obtain f ob l where "(f, ob, l) \<in> set (summary_join b s)" "k = fid f"
    by auto
  then have kf: "k \<in> fid ` set (field_table s)"
    using summary_join_field[of f ob l b s] by simp
  have "length (filter (\<lambda>(f, ob, l). fid f = k) (summary_join b s)) =
        length (filter (\<lambda>ob. field_id ob = k \<and>
                  (\<exists>l\<in>set (listing_table s). lid l = listing_id ob \<and> batch l = b))
                (observation_table s))"
    unfolding summary_join_def
    using assms kf by (intro join_count) (simp_all add: unique_keys_def)
  then show "sum_sample r =
      length (filter (\<lambda>ob. field_id ob = sum_field_id r \<and> in_batch b s ob) (observation_table s))"
    by (simp add: r summary_group_def in_batch_def)
next
  show "batch_summary b (s\<lparr>observation_table := filter (in_batch b s) (observation_table s)\<rparr>)
           = batch_summary b s"
    by (simp add: batch_summary_def summary_join_in_batch_only)
qed

theorem batch_summary_counts_witness:
  "unique_keys sample_store_marked
   \<and> batch_summary (str ''default'') sample_store_marked =
       [\<lparr>sum_field_id = 1, sum_canonical = str ''Garage'', sum_filled = 1, sum_empty = 1,
         sum_sample = 2\<rparr>]
   \<and> length (filter (\<lambda>ob. field_id ob = 1 \<and> in_batch (str ''default'') sample_store_marked ob)
               (observation_table sample_store_marked)) = 2"
proof -
  have h: "unique_keys sample_store_marked"
    by (simp add: unique_keys_def sample_store_marked_def sample_store_def)
  have e: "batch_summary (str ''default'') sample_store_marked =
       [\<lparr>sum_field_id = 1, sum_canonical = str ''Garage'', sum_filled = 1, sum_empty = 1,
         sum_sample = 2\<rparr>]"
    by (simp add: batch_summary_def summary_join_def summary_group_def
        sample_store_marked_def sample_store_def)
  from batch_summary_counts[OF h, of "str ''default''"]
  have "\<forall>r\<in>set (batch_summary (str ''default'') sample_store_marked).
          sum_sample r =
            length (filter (\<lambda>ob. field_id ob = sum_field_id r
                              \<and> in_batch (str ''default'') sample_store_marked ob)
                      (observation_table sample_store_marked))"
    by blast
  then have "length (filter (\<lambda>ob. field_id ob = 1 \<and> in_batch (str ''default'') sample_store_marked ob)
               (observation_table sample_store_marked)) = 2"
    unfolding e by simp
  with h e show ?thesis by blast
qed


lemma dup_store_reachable:
  "add_listing (str ''default'') dup_request sample_time empty_store =
     (Inr (200, JObj [(str ''status'', JStr (str ''ok'')), (str ''listing_db_id'', JInt 1)]),
      dup_store)"
  by (simp add: add_listing_def dup_request_def dup_store_def empty_store_def insert_listing_def
      insert_field_def insert_observation_def next_id_def strip_def is_space_def Let_def
      encodable_def flush_ok_def)

text \<open>
  What the request leaves when a text cannot be stored. A listing id with a surrogate
  code point: the insert of the listing raises and nothing is stored. Such a field
  text, or such an analyst: the listing stays, committed before the loop, without the
  observations of the request.
\<close>

lemma add_listing_unencodable_id:
  "add_listing b (data\<lparr>req_listing_id := Some [0xD800]\<rparr>) now s = (Inl UnicodeEncodeError, s)"
  by (simp add: add_listing_def strip_def is_space_def encodable_def)

lemma add_listing_unencodable_field_text:
  "add_listing (str ''default'')
     \<lparr>req_listing_id = Some (str ''A1''),
      req_observations = [\<lparr>field_text = Some (str ''Pool''), filled_value = None\<rparr>,
                          \<lparr>field_text = Some [0xD800], filled_value = None\<rparr>],
      req_analyst = None\<rparr> sample_time empty_store =
   (Inl UnicodeEncodeError,
    \<lparr>listing_table = [\<lparr>lid = 1, batch = str ''default'', listing_id_text = str ''A1'',
                        l_created_at = sample_time\<rparr>],
     field_table = [\<lparr>fid = 1, canonical = str ''Pool'', f_created_at = sample_time\<rparr>],
     observation_table = []\<rparr>)"
  by (simp add: add_listing_def empty_store_def insert_listing_def
      insert_field_def insert_observation_def next_id_def strip_def is_space_def Let_def
      encodable_def flush_ok_def)

lemma add_listing_unencodable_analyst:
  "add_listing (str ''default'')
     \<lparr>req_listing_id = Some (str ''A1''),
      req_observations = [\<lparr>field_text = Some (str ''Pool''), filled_value = None\<rparr>],
      req_analyst = Some [0xD800]\<rparr> sample_time empty_store =
   (Inl UnicodeEncodeError,
    \<lparr>listing_table = [\<lparr>lid = 1, batch = str ''default'', listing_id_text = str ''A1'',
                        l_created_at = sample_time\<rparr>],
     field_table = [\<lparr>fid = 1, canonical = str ''Pool'', f_created_at = sample_time\<rparr>],
     observation_table = []\<rparr>)"
  by (simp add: add_listing_def empty_store_def insert_listing_def
      insert_field_def insert_observation_def next_id_def strip_def is_space_def Let_def
      encodable_def flush_ok_def)

lemma obs_map_snoc:
  "obs_map (xs @ [x]) = (obs_map xs)((field_id x, listing_id x) \<mapsto> x)"
  by (simp add: obs_map_def)

lemma obs_map_last_match:
  "obs_map xs (f, l) = find (\<lambda>ob. listing_id ob = l \<and> field_id ob = f) (rev xs)"
proof (induction xs rule: rev_induct)
  case Nil
  then show ?case by (simp add: obs_map_def)
next
  case (snoc x xs)
  then show ?case by (auto simp: obs_map_snoc)
qed

lemma find_filter: "find P xs = (case filter P xs of [] \<Rightarrow> None | x # rest \<Rightarrow> Some x)"
  by (induction xs) auto

text \<open>
  Which observation of a pair each lookup takes. The field page and the existence check
  of \<open>bulk_mark_empty\<close> take the first one in query order; the matrix export looks a
  cell up in a dictionary filled in query order, which holds the last one.
\<close>

lemma first_observation_pair:
  "first_observation l f s =
     (case pair_observations l f s of [] \<Rightarrow> None | ob # rest \<Rightarrow> Some ob)"
  by (simp add: first_observation_def pair_observations_def find_filter)

lemma obs_map_pair:
  "obs_map (observation_table s) (f, l) =
     (case rev (pair_observations l f s) of [] \<Rightarrow> None | ob # rest \<Rightarrow> Some ob)"
  by (simp add: obs_map_last_match pair_observations_def find_filter rev_filter)

lemma field_detail_first_match:
  assumes "field_detail f s = Inr (fld, rows)"
  shows "rows =
     map (\<lambda>l. case pair_observations (lid l) f s of
                 [] \<Rightarrow> \<lparr>row_listing_id_text = listing_id_text l, status = str ''unchecked'',
                        obs_id = None\<rparr>
               | ob # rest \<Rightarrow>
                   \<lparr>row_listing_id_text = listing_id_text l,
                    status = (if filled ob then str ''filled'' else str ''empty''),
                    obs_id = Some (oid ob)\<rparr>)
         (newest_first (listing_table s))"
proof -
  from assms have "rows = map (\<lambda>l. let obs = first_observation (lid l) f s in
                          \<lparr>row_listing_id_text = listing_id_text l,
                           status = (case obs of
                                       Some ob \<Rightarrow> if filled ob then str ''filled'' else str ''empty''
                                     | None \<Rightarrow> str ''unchecked''),
                           obs_id = map_option oid obs\<rparr>)
                   (newest_first (listing_table s))"
    by (auto simp: field_detail_def split: option.splits)
  then show ?thesis
    by (simp add: first_observation_pair Let_def split: list.splits cong: map_cong)
qed

lemma bulk_mark_empty_first_match:
  assumes "bulk_mark_empty f a now s = Inr (c, s')"
  shows "\<exists>new. observation_table s' = observation_table s @ new
           \<and> (\<forall>ob\<in>set new. pair_observations (listing_id ob) f s = [])"
proof -
  from assms obtain fld an where
    "mark_listings f fld an now (listing_table s) (0, s) = (c, s')"
    by (auto simp: bulk_mark_empty_def Let_def split: option.splits)
  from mark_listings_effect[OF this] obtain new where
    n: "observation_table s' = observation_table s @ new"
       "\<forall>ob\<in>set new. first_observation (listing_id ob) f s = None"
    by blast
  have "pair_observations (listing_id ob) f s = []" if "ob \<in> set new" for ob
    using n(2) that
    by (cases "pair_observations (listing_id ob) f s") (auto simp: first_observation_pair)
  with n(1) show ?thesis by blast
qed

lemma matrix_rows_last_match:
  "matrix_rows flds lsts s =
     map (\<lambda>fld. canonical fld #
            map (\<lambda>l. case rev (pair_observations (lid l) (fid fld) s) of
                        [] \<Rightarrow> glyph_none
                      | ob # rest \<Rightarrow> if filled ob then glyph_filled else glyph_empty) lsts) flds"
  by (simp add: matrix_rows_def cell_symbol_def obs_map_pair Let_def split: list.splits
      cong: map_cong)

text \<open>
  C7. The lookups do not all take the first match. In \<open>dup_store\<close>, which one request
  produces from the empty store, listing 1 and field 1 have two observations: the first
  filled, the second empty. The field page shows the first (status \<open>filled\<close>,
  observation 1) and \<open>bulk_mark_empty\<close> finds the pair observed, but the matrix export
  writes the glyph for empty into the cell of the pair: it shows the last observation.
\<close>

theorem duplicate_pair_matrix_shows_last:
  "add_listing (str ''default'') dup_request sample_time empty_store =
     (Inr (200, JObj [(str ''status'', JStr (str ''ok'')), (str ''listing_db_id'', JInt 1)]),
      dup_store)
   \<and> map filled (pair_observations 1 1 dup_store) = [True, False]
   \<and> field_detail 1 dup_store =
       Inr (\<lparr>fid = 1, canonical = str ''Garage'', f_created_at = sample_time\<rparr>,
            [\<lparr>row_listing_id_text = str ''A1'', status = str ''filled'', obs_id = Some 1\<rparr>])
   \<and> bulk_mark_empty 1 None sample_time dup_store = Inr (0, dup_store)
   \<and> matrix_rows (sort_key canonical (field_table dup_store))
        (build_listing_order (str ''default'') dup_store) dup_store
       = [[str ''Garage'', glyph_empty]]
   \<and> (\<exists>ws. snd (export_google_sheet_symbols True (Some (str ''sheet'')) None dup_store) = Some ws
          \<and> ws (2, 2) = Some (Raw glyph_empty))
   \<and> glyph_empty \<noteq> glyph_filled"
proof -
  have rows: "matrix_rows (sort_key canonical (field_table dup_store))
        (build_listing_order (str ''default'') dup_store) dup_store
       = [[str ''Garage'', glyph_empty]]"
    by (simp add: dup_store_def matrix_rows_def build_listing_order_def
        obs_map_def cell_symbol_def)
  define L where "L = \<lparr>lid = 1, batch = str ''default'', listing_id_text = str ''A1'',
                         l_created_at = sample_time\<rparr>"
  define F where "F = \<lparr>fid = 1, canonical = str ''Garage'', f_created_at = sample_time\<rparr>"
  have lsts: "build_listing_order (str ''default'') dup_store = [L]"
    by (simp add: dup_store_def build_listing_order_def L_def)
  have flds: "sort_key canonical (field_table dup_store) = [F]"
    by (simp add: dup_store_def F_def)
  have rows': "matrix_rows [F] [L] dup_store = [[str ''Garage'', glyph_empty]]"
    using rows unfolding lsts flds .
  obtain ws3 where w: "write_formulas (summary_columns 1) [0]
       (ws_update 1 2 [[str ''Garage'', glyph_empty]] (ws_update 1 1 [header_row [L]] (\<lambda>p. None)))
        = Inr ws3"
    and cell: "ws3 (2, 2) = Some (Raw glyph_empty)"
    by (simp add: summary_columns_def col_idx_to_letter_def col_letters.simps update_acell_def
        letters_to_col_def ws_update_def Let_def)
  have "export_google_sheet_symbols True (Some (str ''sheet'')) None dup_store =
          ((str ''Exported '' @ str_nat 1 @ str '' fields for '' @
            str_nat 1 @ str '' listings to sheet '' @ str ''sheet'' @
            str '' (tab '' @ [39] @ str ''Single Family'' @ [39] @ str '')'', 200),
           Some ws3)"
    unfolding export_google_sheet_symbols_def option.case Let_def lsts flds rows'
    using w by simp
  with cell have export:
    "\<exists>ws. snd (export_google_sheet_symbols True (Some (str ''sheet'')) None dup_store) = Some ws
          \<and> ws (2, 2) = Some (Raw glyph_empty)"
    by simp
  have pair: "map filled (pair_observations 1 1 dup_store) = [True, False]"
    by (simp add: pair_observations_def dup_store_def)
  have page: "field_detail 1 dup_store =
       Inr (\<lparr>fid = 1, canonical = str ''Garage'', f_created_at = sample_time\<rparr>,
            [\<lparr>row_listing_id_text = str ''A1'', status = str ''filled'', obs_id = Some 1\<rparr>])"
    by (simp add: field_detail_def first_observation_def newest_first_def dup_store_def)
  have bulk: "bulk_mark_empty 1 None sample_time dup_store = Inr (0, dup_store)"
    by (simp add: bulk_mark_empty_def first_observation_def dup_store_def)
  have glyphs: "glyph_empty \<noteq> glyph_filled"
    by (simp add: glyph_empty_def glyph_filled_def)
  show ?thesis
    by (intro conjI dup_store_reachable pair page bulk rows export glyphs)
qed

lemma col_quotient_less: "idx > 0 \<Longrightarrow> (idx - 1) div 26 < (idx :: nat)"
  by (metis One_nat_def Suc_pred div_le_dividend less_Suc_eq_le)

lemma col_letters_unfold:
  "idx > 0 \<Longrightarrow>
   col_letters idx acc = col_letters ((idx - 1) div 26) ((65 + (idx - 1) mod 26) # acc)"
  by (subst col_letters.simps) simp

lemma col_letters_zero: "col_letters 0 acc = acc"
  by (subst col_letters.simps) simp

lemma col_letters_acc: "col_letters idx acc = col_letters idx [] @ acc"
proof (induction idx arbitrary: acc rule: less_induct)
  case (less idx)
  show ?case
  proof (cases "idx > 0")
    case True
    let ?q = "(idx - 1) div 26" and ?c = "65 + (idx - 1) mod 26"
    have lt: "?q < idx" using True by (rule col_quotient_less)
    have a: "col_letters idx acc = col_letters ?q [] @ (?c # acc)"
      unfolding col_letters_unfold[OF True] by (rule less.IH[OF lt])
    have b: "col_letters idx [] = col_letters ?q [] @ [?c]"
      unfolding col_letters_unfold[OF True] by (rule less.IH[OF lt])
    show ?thesis unfolding a b by simp
  next
    case False
    then show ?thesis by (simp add: col_letters_zero)
  qed
qed

lemma col_letters_step:
  "idx > 0 \<Longrightarrow>
   col_letters idx [] = col_letters ((idx - 1) div 26) [] @ [65 + (idx - 1) mod 26]"
  unfolding col_letters_unfold by (rule col_letters_acc)

lemma col_letters_range: "\<forall>c\<in>set (col_letters idx []). 65 \<le> c \<and> c \<le> 90"
proof (induction idx rule: less_induct)
  case (less idx)
  show ?case
  proof (cases "idx > 0")
    case True
    have "\<forall>c\<in>set (col_letters ((idx - 1) div 26) []). 65 \<le> c \<and> c \<le> 90"
      by (rule less.IH[OF col_quotient_less[OF True]])
    moreover have "(idx - 1) mod 26 < 26" by simp
    ultimately show ?thesis
      unfolding col_letters_step[OF True] by auto
  next
    case False
    then show ?thesis by (simp add: col_letters_zero)
  qed
qed

lemma col_letters_value: "fold (\<lambda>c acc. acc * 26 + (c - 64)) (col_letters idx []) 0 = idx"
proof (induction idx rule: less_induct)
  case (less idx)
  show ?case
  proof (cases "idx > 0")
    case True
    let ?q = "(idx - 1) div 26" and ?r = "(idx - 1) mod 26"
    have IH: "fold (\<lambda>c acc. acc * 26 + (c - 64)) (col_letters ?q []) 0 = ?q"
      by (rule less.IH[OF col_quotient_less[OF True]])
    have "fold (\<lambda>c acc. acc * 26 + (c - 64)) (col_letters idx []) 0 =
          fold (\<lambda>c acc. acc * 26 + (c - 64)) (col_letters ?q []) 0 * 26 + (65 + ?r - 64)"
      unfolding col_letters_step[OF True] by (simp only: fold_append fold_simps comp_apply)
    also have "\<dots> = ?q * 26 + (?r + 1)" unfolding IH by simp
    also have "\<dots> = (idx - 1) + 1" by (simp only: add.assoc[symmetric] div_mult_mod_eq)
    also have "\<dots> = idx" using True by simp
    finally show ?thesis .
  next
    case False
    then show ?thesis by (simp add: col_letters_zero)
  qed
qed

lemma col_letters_nonempty: "idx > 0 \<Longrightarrow> col_letters idx [] \<noteq> []"
  by (simp add: col_letters_step)

lemma letters_to_col_inverse:
  "idx > 0 \<Longrightarrow> letters_to_col (col_idx_to_letter idx) = Some idx"
  using col_letters_range[of idx] col_letters_value[of idx] col_letters_nonempty[of idx]
  by (simp add: letters_to_col_def col_idx_to_letter_def)


lemma update_acell_col:
  "k > 0 \<Longrightarrow> update_acell (col_idx_to_letter k) r e ws = Some (ws((k, r) \<mapsto> Formula e))"
  by (simp add: update_acell_def letters_to_col_inverse)

lemma summary_columns_sel:
  "first_list_col_letter (summary_columns n) = col_idx_to_letter 2"
  "last_list_col_letter (summary_columns n) = col_idx_to_letter (1 + n)"
  "filled_col_letter (summary_columns n) = col_idx_to_letter (n + 2)"
  "empty_col_letter (summary_columns n) = col_idx_to_letter (n + 3)"
  "pct_col_letter (summary_columns n) = col_idx_to_letter (n + 4)"
  "remove_col_letter (summary_columns n) = col_idx_to_letter (n + 5)"
  by (auto simp: summary_columns_def Let_def intro!: arg_cong[of _ _ col_idx_to_letter])

lemma write_formulas_row:
  "write_formulas (summary_columns n) (i # rest) ws =
   write_formulas (summary_columns n) rest
     (ws((n + 2, 2 + i) \<mapsto> Formula (summary_formula n (n + 2) (2 + i)),
         (n + 3, 2 + i) \<mapsto> Formula (summary_formula n (n + 3) (2 + i)),
         (n + 4, 2 + i) \<mapsto> Formula (summary_formula n (n + 4) (2 + i)),
         (n + 5, 2 + i) \<mapsto> Formula (summary_formula n (n + 5) (2 + i))))"
  by (simp add: Let_def summary_columns_sel update_acell_col summary_formula_def)

lemma write_formulas_cells:
  "\<exists>ws'. write_formulas (summary_columns n) rows_idx ws = Inr ws' \<and>
     (\<forall>c r. ws' (c, r) =
        (if 2 \<le> r \<and> r - 2 \<in> set rows_idx \<and> n + 2 \<le> c \<and> c \<le> n + 5
         then Some (Formula (summary_formula n c r)) else ws (c, r)))"
proof (induction rows_idx arbitrary: ws)
  case Nil
  then show ?case by simp
next
  case (Cons i rest)
  define ws1 where "ws1 = ws((n + 2, 2 + i) \<mapsto> Formula (summary_formula n (n + 2) (2 + i)),
         (n + 3, 2 + i) \<mapsto> Formula (summary_formula n (n + 3) (2 + i)),
         (n + 4, 2 + i) \<mapsto> Formula (summary_formula n (n + 4) (2 + i)),
         (n + 5, 2 + i) \<mapsto> Formula (summary_formula n (n + 5) (2 + i)))"
  have ws1: "ws1 (c, r) =
      (if r = 2 + i \<and> n + 2 \<le> c \<and> c \<le> n + 5
       then Some (Formula (summary_formula n c r)) else ws (c, r))" for c r
    unfolding ws1_def by auto
  from Cons.IH[of ws1] obtain ws' where
    r: "write_formulas (summary_columns n) rest ws1 = Inr ws'"
    and c: "\<And>c r. ws' (c, r) =
        (if 2 \<le> r \<and> r - 2 \<in> set rest \<and> n + 2 \<le> c \<and> c \<le> n + 5
         then Some (Formula (summary_formula n c r)) else ws1 (c, r))"
    by blast
  have "write_formulas (summary_columns n) (i # rest) ws = Inr ws'"
    unfolding write_formulas_row using r by (simp add: ws1_def)
  moreover have "ws' (c, r) =
        (if 2 \<le> r \<and> r - 2 \<in> set (i # rest) \<and> n + 2 \<le> c \<and> c \<le> n + 5
         then Some (Formula (summary_formula n c r)) else ws (c, r))" for c r
    unfolding c ws1 by auto
  ultimately show ?case by blast
qed


lemma tl_as_map:
  "length row = Suc n \<Longrightarrow> tl row = map (\<lambda>k. row ! (k - 1)) [2..<n + 2]"
proof (rule nth_equalityI)
  assume "length row = Suc n"
  then show "length (tl row) = length (map (\<lambda>k. row ! (k - 1)) [2..<n + 2])"
    by (simp only: length_tl length_map length_upt diff_Suc_1 add_diff_cancel_right')
next
  fix i assume "length row = Suc n" "i < length (tl row)"
  then have "i < n" by simp
  then have "[2..<n + 2] ! i = 2 + i" by (simp only: nth_upt)
  with \<open>i < n\<close> \<open>i < length (tl row)\<close> show "tl row ! i = map (\<lambda>k. row ! (k - 1)) [2..<n + 2] ! i"
    by (simp add: nth_tl del: upt_Suc)
qed

lemma countif_row:
  assumes len: "length row = Suc n"
    and cells: "\<And>c. 2 \<le> c \<Longrightarrow> c \<le> n + 1 \<Longrightarrow> ws (c, r) = Some (Raw (row ! (c - 1)))"
  shows "eval (Suc fuel) ws (CountIf (col_idx_to_letter 2) r (col_idx_to_letter (1 + n)) r crit) =
         VNum (of_nat (length (filter (\<lambda>x. x = crit) (tl row))))"
proof -
  let ?P = "\<lambda>p. case ws p of None \<Rightarrow> False | Some (Raw t) \<Rightarrow> t = crit
                 | Some (Formula e) \<Rightarrow> eval fuel ws e = VText crit"
  have range: "[(k, r'). r' \<leftarrow> [r..<Suc r], k \<leftarrow> [2..<Suc (1 + n)]] = map (\<lambda>k. (k, r)) [2..<n + 2]"
    by simp
  have "filter ?P (map (\<lambda>k. (k, r)) [2..<n + 2]) =
        map (\<lambda>k. (k, r)) (filter (\<lambda>k. row ! (k - 1) = crit) [2..<n + 2])"
    unfolding filter_map
    by (rule arg_cong[of _ _ "map (\<lambda>k. (k, r))"], rule filter_cong) (auto simp: cells)
  then have "length (filter ?P (map (\<lambda>k. (k, r)) [2..<n + 2])) =
             length (filter (\<lambda>k. row ! (k - 1) = crit) [2..<n + 2])"
    by simp
  also have "\<dots> = length (filter (\<lambda>x. x = crit) (tl row))"
    unfolding tl_as_map[OF len] filter_map by (simp add: comp_def)
  finally have cnt: "length (filter ?P (map (\<lambda>k. (k, r)) [2..<n + 2])) =
      length (filter (\<lambda>x. x = crit) (tl row))" .
  have l2: "letters_to_col (col_idx_to_letter 2) = Some 2"
    and ln: "letters_to_col (col_idx_to_letter (1 + n)) = Some (1 + n)"
    by (simp_all add: letters_to_col_inverse)
  show ?thesis
    unfolding eval.simps l2 ln range[symmetric] option.case prod.case
    using cnt unfolding range[symmetric] by simp
qed


lemma matrix_rows_length: "length (matrix_rows flds lsts s) = length flds"
  by (simp add: matrix_rows_def Let_def)

lemma matrix_row_length:
  "i < length flds \<Longrightarrow> length (matrix_rows flds lsts s ! i) = Suc (length lsts)"
  by (simp add: matrix_rows_def Let_def)

lemma ws_update_row_cell:
  assumes "i < length vals" and "1 \<le> c" and "c \<le> length (vals ! i)"
  shows "ws_update 1 2 vals ws (c, 2 + i) = Some (Raw (vals ! i ! (c - 1)))"
proof -
  have "c - 1 < length (vals ! i)" using assms by arith
  moreover have "2 + i - 2 = i" by simp
  ultimately show ?thesis
    unfolding ws_update_def prod.case using assms by (simp only: le_add1 if_True simp_thms)
qed

lemma eval_cell_formula:
  assumes "k > 0" and "ws (k, r) = Some (Formula e)"
  shows "eval (Suc fuel) ws (Cell (col_idx_to_letter k) r) = eval fuel ws e"
  using assms by (simp add: letters_to_col_inverse)

lemma eval_remove_formula:
  assumes "eval fuel ws (Cell fc r) = VNum (of_nat f)"
    and "eval fuel ws (Cell ec r) = VNum (of_nat e)"
  shows "eval fuel ws (remove_formula fc ec r) =
         VText (if e \<ge> 6 \<and> f + e \<ge> 10 then str ''YES'' else str ''NO'')"
proof -
  have a: "(6 :: rat) \<le> of_nat e \<longleftrightarrow> 6 \<le> e"
    by (metis of_nat_le_iff of_nat_numeral)
  have b: "(10 :: rat) \<le> of_nat f + of_nat e \<longleftrightarrow> 10 \<le> f + e"
    by (metis of_nat_le_iff of_nat_numeral of_nat_add)
  show ?thesis
    unfolding remove_formula_def eval.simps assms
    by (simp add: a b)
qed


text \<open>
  C3. When the export succeeds (a sheet id, at least one listing in the batch, at least
  one field), then for every field row the cell of the filled count evaluates to the
  number of filled glyphs among the row's listing cells, the cell of the empty count to
  the number of empty glyphs, and the recommendation is YES exactly when the empty count
  is at least 6 and filled plus empty is at least 10, and NO otherwise. Three levels
  of cell references are enough to evaluate it.
\<close>

theorem remove_candidate_formula:
  assumes sid: "sheet_id \<noteq> []"
    and lst: "build_listing_order b s \<noteq> []"
    and i: "i < length (field_table s)"
    and fuel: "3 \<le> fuel"
  shows "\<exists>resp ws.
           export_google_sheet_symbols True (Some sheet_id) (Some b) s = ((resp, 200), Some ws)
         \<and> (let lsts = build_listing_order b s;
                 row = matrix_rows (sort_key canonical (field_table s)) lsts s ! i;
                 filledCount = glyph_count glyph_filled row;
                 emptyCount = glyph_count glyph_empty row;
                 cols = summary_columns (length lsts)
             in eval fuel ws (Cell (filled_col_letter cols) (2 + i)) = VNum (of_nat filledCount)
              \<and> eval fuel ws (Cell (empty_col_letter cols) (2 + i)) = VNum (of_nat emptyCount)
              \<and> eval fuel ws (Cell (remove_col_letter cols) (2 + i)) =
                  VText (if emptyCount \<ge> 6 \<and> filledCount + emptyCount \<ge> 10
                         then str ''YES'' else str ''NO''))"
proof -
  define lsts where "lsts = build_listing_order b s"
  define flds where "flds = sort_key canonical (field_table s)"
  define rows where "rows = matrix_rows flds lsts s"
  define n where "n = length lsts"
  define ws2 where "ws2 = ws_update 1 2 rows (ws_update 1 1 [header_row lsts] (\<lambda>p. None))"
  define r where "r = 2 + i"
  define row where "row = rows ! i"
  have flds_len: "length flds = length (field_table s)" by (simp add: flds_def)
  then have flds_ne: "flds \<noteq> []" using i by auto
  have rows_len: "length rows = length flds" by (simp add: rows_def matrix_rows_length)
  have i_rows: "i < length rows" using i rows_len flds_len by simp
  have row_len: "length row = Suc n"
    unfolding row_def rows_def n_def using i flds_len by (simp add: matrix_row_length)
  from write_formulas_cells[of n "[0..<length rows]" ws2] obtain ws3 where
    w: "write_formulas (summary_columns n) [0..<length rows] ws2 = Inr ws3"
    and c: "\<And>c r. ws3 (c, r) =
        (if 2 \<le> r \<and> r - 2 \<in> set [0..<length rows] \<and> n + 2 \<le> c \<and> c \<le> n + 5
         then Some (Formula (summary_formula n c r)) else ws2 (c, r))"
    by blast
  have export: "export_google_sheet_symbols True (Some sheet_id) (Some b) s =
      ((str ''Exported '' @ str_nat (length rows) @ str '' fields for '' @
        str_nat n @ str '' listings to sheet '' @ sheet_id @
        str '' (tab '' @ [39] @ str ''Single Family'' @ [39] @ str '')'', 200), Some ws3)"
    using sid lst flds_ne w
    unfolding export_google_sheet_symbols_def Let_def ws2_def n_def rows_def flds_def lsts_def
    by simp
  have raw: "ws3 (c, r) = Some (Raw (row ! (c - 1)))" if "2 \<le> c" "c \<le> n + 1" for c
  proof -
    have "ws3 (c, r) = ws2 (c, r)" using that c[of c r] by simp
    also have "\<dots> = Some (Raw (rows ! i ! (c - 1)))"
      unfolding ws2_def r_def
      using that i_rows row_len by (intro ws_update_row_cell) (simp_all add: row_def)
    finally show ?thesis by (simp add: row_def)
  qed
  have formula: "ws3 (c, r) = Some (Formula (summary_formula n c r))"
    if "n + 2 \<le> c" "c \<le> n + 5" for c
    using that c[of c r] i_rows by (simp add: r_def)
  have cnt: "eval (Suc k) ws3
        (CountIf (col_idx_to_letter 2) r (col_idx_to_letter (1 + n)) r crit) =
      VNum (of_nat (glyph_count crit row))" for k crit
    unfolding glyph_count_def by (rule countif_row[OF row_len]) (rule raw)
  have sf: "summary_formula n (n + 2) r =
          CountIf (col_idx_to_letter 2) r (col_idx_to_letter (1 + n)) r glyph_filled"
    "summary_formula n (n + 3) r =
          CountIf (col_idx_to_letter 2) r (col_idx_to_letter (1 + n)) r glyph_empty"
    "summary_formula n (n + 5) r =
          remove_formula (col_idx_to_letter (n + 2)) (col_idx_to_letter (n + 3)) r"
    by (simp_all add: summary_formula_def summary_columns_sel filled_formula_def
        empty_formula_def)
  have fcell: "eval (Suc (Suc k)) ws3 (Cell (col_idx_to_letter (n + 2)) r) =
      VNum (of_nat (glyph_count glyph_filled row))" for k
  proof -
    have "eval (Suc (Suc k)) ws3 (Cell (col_idx_to_letter (n + 2)) r) =
          eval (Suc k) ws3 (summary_formula n (n + 2) r)"
      by (rule eval_cell_formula) (simp_all add: formula)
    then show ?thesis unfolding sf by (simp only: cnt)
  qed
  have ecell: "eval (Suc (Suc k)) ws3 (Cell (col_idx_to_letter (n + 3)) r) =
      VNum (of_nat (glyph_count glyph_empty row))" for k
  proof -
    have "eval (Suc (Suc k)) ws3 (Cell (col_idx_to_letter (n + 3)) r) =
          eval (Suc k) ws3 (summary_formula n (n + 3) r)"
      by (rule eval_cell_formula) (simp_all add: formula)
    then show ?thesis unfolding sf by (simp only: cnt)
  qed
  from fuel obtain k where k: "fuel = Suc (Suc (Suc k))"
    by (metis add_2_eq_Suc' le_Suc_ex numeral_3_eq_3 add_Suc)
  have rcell: "eval fuel ws3 (Cell (col_idx_to_letter (n + 5)) r) =
      VText (if glyph_count glyph_empty row \<ge> 6
                \<and> glyph_count glyph_filled row + glyph_count glyph_empty row \<ge> 10
             then str ''YES'' else str ''NO'')"
  proof -
    have "eval fuel ws3 (Cell (col_idx_to_letter (n + 5)) r) =
          eval (Suc (Suc k)) ws3 (summary_formula n (n + 5) r)"
      unfolding k by (rule eval_cell_formula) (simp_all add: formula)
    also have "\<dots> = eval (Suc (Suc k)) ws3
        (remove_formula (col_idx_to_letter (n + 2)) (col_idx_to_letter (n + 3)) r)"
      by (simp only: sf)
    also have "\<dots> = VText (if glyph_count glyph_empty row \<ge> 6
                \<and> glyph_count glyph_filled row + glyph_count glyph_empty row \<ge> 10
             then str ''YES'' else str ''NO'')"
      by (rule eval_remove_formula[OF fcell ecell])
    finally show ?thesis .
  qed
  have f3: "eval fuel ws3 (Cell (col_idx_to_letter (n + 2)) r) =
      VNum (of_nat (glyph_count glyph_filled row))"
    unfolding k by (rule fcell)
  have e3: "eval fuel ws3 (Cell (col_idx_to_letter (n + 3)) r) =
      VNum (of_nat (glyph_count glyph_empty row))"
    unfolding k by (rule ecell)
  have "let lsts = build_listing_order b s;
            row = matrix_rows (sort_key canonical (field_table s)) lsts s ! i;
            filledCount = glyph_count glyph_filled row;
            emptyCount = glyph_count glyph_empty row;
            cols = summary_columns (length lsts)
        in eval fuel ws3 (Cell (filled_col_letter cols) (2 + i)) = VNum (of_nat filledCount)
         \<and> eval fuel ws3 (Cell (empty_col_letter cols) (2 + i)) = VNum (of_nat emptyCount)
         \<and> eval fuel ws3 (Cell (remove_col_letter cols) (2 + i)) =
             VText (if emptyCount \<ge> 6 \<and> filledCount + emptyCount \<ge> 10
                    then str ''YES'' else str ''NO'')"
    unfolding Let_def summary_columns_sel
    using f3 e3 rcell
    unfolding row_def rows_def flds_def lsts_def n_def r_def by simp
  with export show ?thesis by blast
qed


lemma matrix_store_order:
  "build_listing_order (str ''default'') matrix_store = listing_table matrix_store"
  by (simp add: build_listing_order_def matrix_store_def dt_key_def sample_time_def)

lemma matrix_store_row:
  "matrix_rows (sort_key canonical (field_table matrix_store))
     (build_listing_order (str ''default'') matrix_store) matrix_store ! 0 =
   [str ''Garage'', glyph_filled, glyph_filled, glyph_filled, glyph_filled,
    glyph_empty, glyph_empty, glyph_empty, glyph_empty, glyph_empty, glyph_empty]"
  unfolding matrix_store_order
  by (simp add: matrix_rows_def matrix_store_def obs_map_def cell_symbol_def)

theorem remove_candidate_formula_witness:
  "str ''sheet1'' \<noteq> []
   \<and> build_listing_order (str ''default'') matrix_store \<noteq> []
   \<and> (0::nat) < length (field_table matrix_store)
   \<and> (3::nat) \<le> 3
   \<and> (\<exists>resp ws.
         export_google_sheet_symbols True (Some (str ''sheet1'')) (Some (str ''default'')) matrix_store
           = ((resp, 200), Some ws)
       \<and> eval 3 ws (Cell (filled_col_letter (summary_columns 10)) 2) = VNum 4
       \<and> eval 3 ws (Cell (empty_col_letter (summary_columns 10)) 2) = VNum 6
       \<and> eval 3 ws (Cell (remove_col_letter (summary_columns 10)) 2) = VText (str ''YES''))"
proof -
  have h1: "str ''sheet1'' \<noteq> []" by simp
  have h2: "build_listing_order (str ''default'') matrix_store \<noteq> []"
    unfolding matrix_store_order by (simp add: matrix_store_def)
  have h3: "(0::nat) < length (field_table matrix_store)" by (simp add: matrix_store_def)
  have h4: "(3::nat) \<le> 3" by simp
  have len: "length (build_listing_order (str ''default'') matrix_store) = 10"
    unfolding matrix_store_order by (simp add: matrix_store_def)
  have cf: "glyph_count glyph_filled
      (matrix_rows (sort_key canonical (field_table matrix_store))
         (build_listing_order (str ''default'') matrix_store) matrix_store ! 0) = 4"
    unfolding matrix_store_row by (simp add: glyph_count_def glyph_filled_def glyph_empty_def)
  have ce: "glyph_count glyph_empty
      (matrix_rows (sort_key canonical (field_table matrix_store))
         (build_listing_order (str ''default'') matrix_store) matrix_store ! 0) = 6"
    unfolding matrix_store_row by (simp add: glyph_count_def glyph_filled_def glyph_empty_def)
  from remove_candidate_formula[OF h1 h2 h3 h4]
  have "\<exists>resp ws.
         export_google_sheet_symbols True (Some (str ''sheet1'')) (Some (str ''default'')) matrix_store
           = ((resp, 200), Some ws)
       \<and> eval 3 ws (Cell (filled_col_letter (summary_columns 10)) 2) = VNum 4
       \<and> eval 3 ws (Cell (empty_col_letter (summary_columns 10)) 2) = VNum 6
       \<and> eval 3 ws (Cell (remove_col_letter (summary_columns 10)) 2) = VText (str ''YES'')"
    unfolding Let_def len cf ce by simp
  with h1 h2 h3 h4 show ?thesis by blast
qed


text \<open>The text the source writes for each formula is the rendering of its term.\<close>

lemma str_nat_digit: "n < 10 \<Longrightarrow> str_nat n = [48 + n]"
  by (subst str_nat.simps) simp

lemma render_filled_formula:
  "render (filled_formula f l r) =
   str ''=COUNTIF('' @ f @ str_nat r @ str '':'' @ l @ str_nat r @ str '','' @
   [34] @ glyph_filled @ [34] @ str '')''"
  by (simp add: render_def filled_formula_def)

lemma render_empty_formula:
  "render (empty_formula f l r) =
   str ''=COUNTIF('' @ f @ str_nat r @ str '':'' @ l @ str_nat r @ str '','' @
   [34] @ glyph_empty @ [34] @ str '')''"
  by (simp add: render_def empty_formula_def)

lemma render_pct_formula:
  "render (pct_formula fc ec r) =
   str ''=IF(('' @ fc @ str_nat r @ str ''+'' @ ec @ str_nat r @ str '')=0,0,'' @
   ec @ str_nat r @ str ''/('' @ fc @ str_nat r @ str ''+'' @ ec @ str_nat r @ str ''))''"
  by (simp add: render_def pct_formula_def str_nat_digit)

lemma render_remove_formula:
  "render (remove_formula fc ec r) =
   str ''=IF(AND('' @ ec @ str_nat r @ str ''>=6,('' @ fc @ str_nat r @ str ''+'' @
   ec @ str_nat r @ str '')>=10),'' @ [34] @ str ''YES'' @ [34] @ str '','' @
   [34] @ str ''NO'' @ [34] @ str '')''"
proof -
  have "str_nat (nat 6) = str ''6''" "str_nat (nat 10) = str ''10''"
    by (simp_all add: str_nat.simps)
  then show ?thesis by (simp add: render_def remove_formula_def)
qed

lemmas csv_eval =
  csv_reader_def split_lines_def feed_line_def parse_process_char_def start_field_def
  parse_add_char_def parse_save_field_def parse_reset_def field_limit_def

lemmas import_eval =
  import_obs_def dict_reader_def dict_of_record_def row_get_def py_int_def strip_def
  is_space_def to_ascii_def ascii_space_def is_digit_def digits_value_def insert_listing_def
  insert_field_def
  insert_observation_def next_id_def empty_store_def

lemma import_rows_bad_filled:
  assumes "row_get row (str ''listing_id'') [] = Some v1"
    and "row_get row (str ''field'') [] = Some v2"
    and "row_get row (str ''filled'') (str ''0'') = Some v3"
    and "py_int v3 = None"
  shows "import_rows b an now (row # rest) (s, c) = Inl (ValueError, c)"
  using assms by simp

text \<open>
  C10. There are CSV inputs on which the import ends with an unhandled \<open>ValueError\<close>
  instead of a response: a row whose \<open>filled\<close> column is \<open>yes\<close>, or is empty, and
  even such a row whose listing id is blank, because the conversion comes before the
  test for blank texts. Rows with a blank listing id or a blank field and a good
  \<open>filled\<close> column are skipped silently: the import answers \<open>imported\<close> and creates
  nothing.
\<close>

theorem import_obs_unhandled_conversion_error:
  "import_obs (Some (csv_header @ str ''A1,Garage,yes'' @ [13, 10])) None None sample_time empty_store
     = (Inl ValueError, empty_store)
   \<and> import_obs (Some (csv_header @ str ''A1,Garage,'' @ [13, 10])) None None sample_time empty_store
     = (Inl ValueError, empty_store)
   \<and> import_obs (Some (csv_header @ str '' ,Garage,yes'' @ [13, 10])) None None sample_time empty_store
     = (Inl ValueError, empty_store)
   \<and> import_obs (Some (csv_header @ str '' ,Garage,1'' @ [13, 10] @ str ''A1,  ,0'' @ [13, 10]))
       None None sample_time empty_store
     = (Inr (str ''imported'', 200), empty_store)"
  by (simp add: csv_header_def csv_eval import_eval)

text \<open>The character-by-character reader yields what the line-by-line reader yields.\<close>

lemma feed_chars_append:
  "feed_chars p (a @ b) = (case feed_chars p a of None \<Rightarrow> None | Some q \<Rightarrow> feed_chars q b)"
  by (induction a arbitrary: p) (auto split: option.splits)

lemma read_lines_reset_Nil: "read_lines parse_reset [] = ([], None)"
  by (simp add: parse_reset_def)

lemma read_lines_Cons_None:
  "feed_line p line = None \<Longrightarrow> read_lines p (line # rest) = ([], Some CsvError)"
  by simp

lemma read_lines_Cons_emit:
  "feed_line p line = Some q \<Longrightarrow> p_state q = START_RECORD \<Longrightarrow>
   read_lines p (line # rest) =
     (let (recs, err) = read_lines parse_reset rest in (p_fields q # recs, err))"
  by simp

lemma read_lines_Cons_continue:
  "feed_line p line = Some q \<Longrightarrow> p_state q \<noteq> START_RECORD \<Longrightarrow>
   read_lines p (line # rest) = read_lines q rest"
  by simp

lemma feed_line_snoc:
  "feed_chars p cur = Some q \<Longrightarrow>
   feed_line p (cur @ [c]) =
     (case parse_process_char q (Some c) of None \<Rightarrow> None | Some q1 \<Rightarrow> parse_process_char q1 None)"
  by (simp add: feed_line_def feed_chars_append split: option.splits)

lemma read_lines_feed_error:
  "feed_chars p cur = None \<Longrightarrow> read_lines p (lines_acc cur inp) = ([], Some CsvError)"
proof (induction inp arbitrary: cur)
  case Nil
  then have "cur \<noteq> []" by auto
  moreover have "feed_line p cur = None" using Nil by (simp add: feed_line_def)
  ultimately show ?case by (simp add: read_lines_Cons_None del: read_lines.simps)
next
  case (Cons c cs)
  have f: "feed_chars p (cur @ [c]) = None"
    using Cons.prems by (simp add: feed_chars_append)
  show ?case
  proof (cases "c = 10")
    case True
    have "feed_line p (cur @ [c]) = None" using f by (simp add: feed_line_def)
    then have "read_lines p ((cur @ [c]) # lines_acc [] cs) = ([], Some CsvError)"
      by (rule read_lines_Cons_None)
    with True show ?thesis by (simp del: read_lines.simps)
  next
    case False
    with Cons.IH[OF f] show ?thesis by (simp del: read_lines.simps)
  qed
qed

lemma read_lines_scan:
  "feed_chars p cur = Some q \<Longrightarrow> read_lines p (lines_acc cur inp) = scan q (cur \<noteq> []) inp"
proof (induction inp arbitrary: p cur q)
  case Nil
  show ?case
  proof (cases "cur = []")
    case True
    with Nil show ?thesis by simp
  next
    case False
    have fl: "feed_line p cur = parse_process_char q None"
      using Nil by (simp add: feed_line_def)
    show ?thesis
    proof (cases "parse_process_char q None")
      case None
      then have "read_lines p [cur] = ([], Some CsvError)"
        using fl by (intro read_lines_Cons_None) simp
      with None False show ?thesis by (simp del: read_lines.simps)
    next
      case (Some q')
      show ?thesis
      proof (cases "p_state q' = START_RECORD")
        case True
        have "read_lines p [cur] =
              (let (recs, err) = read_lines parse_reset [] in (p_fields q' # recs, err))"
          using fl Some True by (intro read_lines_Cons_emit) simp_all
        then have "read_lines p [cur] = ([p_fields q'], None)"
          by (simp only: read_lines_reset_Nil Let_def prod.case)
        with Some True False show ?thesis by (simp del: read_lines.simps)
      next
        case ns: False
        have "read_lines p [cur] = read_lines q' []"
          using fl Some ns by (intro read_lines_Cons_continue) simp_all
        with Some ns False show ?thesis by (simp del: read_lines.simps)
      qed
    qed
  qed
next
  case (Cons c cs)
  have fls: "feed_line p (cur @ [c]) =
     (case parse_process_char q (Some c) of None \<Rightarrow> None | Some q1 \<Rightarrow> parse_process_char q1 None)"
    using Cons.prems by (rule feed_line_snoc)
  show ?case
  proof (cases "parse_process_char q (Some c)")
    case None
    then have f: "feed_chars p (cur @ [c]) = None"
      using Cons.prems by (simp add: feed_chars_append)
    have "read_lines p (lines_acc cur (c # cs)) = ([], Some CsvError)"
      using read_lines_feed_error[OF f, of cs] read_lines_Cons_None[of p "cur @ [c]" "lines_acc [] cs"]
        fls None
      by (cases "c = 10") (simp_all del: read_lines.simps)
    with None show ?thesis by (simp del: read_lines.simps)
  next
    case (Some q1)
    then have f1: "feed_chars p (cur @ [c]) = Some q1"
      using Cons.prems by (simp add: feed_chars_append)
    show ?thesis
    proof (cases "c = 10")
      case False
      with Some Cons.IH[OF f1] show ?thesis by (simp del: read_lines.simps)
    next
      case True
      have la: "lines_acc cur (c # cs) = (cur @ [c]) # lines_acc [] cs"
        using True by simp
      show ?thesis
      proof (cases "parse_process_char q1 None")
        case None
        then have "feed_line p (cur @ [c]) = None" using fls Some by simp
        then have "read_lines p (lines_acc cur (c # cs)) = ([], Some CsvError)"
          unfolding la by (rule read_lines_Cons_None)
        with True Some None show ?thesis by (simp del: read_lines.simps)
      next
        case q2: (Some q2)
        then have fl: "feed_line p (cur @ [c]) = Some q2" using fls Some by simp
        have r1: "read_lines parse_reset (lines_acc [] cs) = scan parse_reset False cs"
          using Cons.IH[of parse_reset "[]" parse_reset] by simp
        have r2: "read_lines q2 (lines_acc [] cs) = scan q2 False cs"
          using Cons.IH[of q2 "[]" q2] by simp
        show ?thesis
        proof (cases "p_state q2 = START_RECORD")
          case sr: True
          have "read_lines p (lines_acc cur (c # cs)) =
             (let (recs, err) = read_lines parse_reset (lines_acc [] cs) in (p_fields q2 # recs, err))"
            unfolding la using fl sr by (rule read_lines_Cons_emit)
          with True Some q2 sr r1 show ?thesis by (simp del: read_lines.simps)
        next
          case ns: False
          have "read_lines p (lines_acc cur (c # cs)) = read_lines q2 (lines_acc [] cs)"
            unfolding la using fl ns by (rule read_lines_Cons_continue)
          with True Some q2 ns r2 show ?thesis by (simp del: read_lines.simps)
        qed
      qed
    qed
  qed
qed

lemma csv_reader_scan: "csv_reader inp = scan parse_reset False inp"
  using read_lines_scan[of parse_reset "[]" parse_reset inp]
  by (simp add: csv_reader_def split_lines_def)

end
